theory Spec2Isabelle
  imports Complex_Main "HOL-Library.AList" "HOL-Library.Sublist"
begin

section \<open>The knowledge base of hedwig (core/kb.py)\<close>

text \<open>
  A shallow embedding of the class \<open>ExperimentKB\<close>. The object \<open>self\<close> is a record that
  every step of \<open>__init__\<close> takes and returns updated; a Python exception is the \<open>Inl\<close>
  of a sum. Python containers are modelled by lists: a \<open>set\<close> is a list without
  duplicates in insertion order, a \<open>dict\<close> is an association list in insertion order
  (the iteration order of a Python 2 dictionary is arbitrary but fixed; insertion order
  is the one chosen here), and a \<open>bitarray\<close> is a list of booleans. Integers are Python's
  unbounded ones.
\<close>

subsection \<open>Exceptions and values\<close>

datatype error =
    IndexError
  | KeyError
  | ValueError
  | TypeError
  | UnicodeEncodeError
  | RecursionError
  | Exception string

text \<open>A score is a Python \<open>float\<close> or a \<open>str\<close>.\<close>

datatype pyval = Float real | Str string

subsection \<open>The triple graph\<close>

text \<open>
  The rdflib graph is outside the repository. A term is its text, a graph is the
  sequence of its triples, and the three pattern queries that \<open>__init__\<close> uses return the
  matches in the order of that sequence.
\<close>

type_synonym node = string
type_synonym graph = "(node \<times> node \<times> node) list"

definition subjects :: "graph \<Rightarrow> node \<Rightarrow> node \<Rightarrow> node list" where
  "subjects gr p ob = map fst (filter (\<lambda>t. fst (snd t) = p \<and> snd (snd t) = ob) gr)"

definition objects :: "graph \<Rightarrow> node \<Rightarrow> node \<Rightarrow> node list" where
  "objects gr s p = map (\<lambda>t. snd (snd t)) (filter (\<lambda>t. fst t = s \<and> fst (snd t) = p) gr)"

definition subject_objects :: "graph \<Rightarrow> node \<Rightarrow> (node \<times> node) list" where
  "subject_objects gr p = map (\<lambda>t. (fst t, snd (snd t))) (filter (\<lambda>t. fst (snd t) = p) gr)"

definition RDF_type :: node where
  "RDF_type = ''http://www.w3.org/1999/02/22-rdf-syntax-ns#type''"

definition RDFS_subClassOf :: node where
  "RDFS_subClassOf = ''http://www.w3.org/2000/01/rdf-schema#subClassOf''"

definition RDFS_domain :: node where
  "RDFS_domain = ''http://www.w3.org/2000/01/rdf-schema#domain''"

definition RDFS_range :: node where
  "RDFS_range = ''http://www.w3.org/2000/01/rdf-schema#range''"

subsection \<open>What kb.py imports\<close>

text \<open>
  \<open>HEDWIG\<close> (a namespace: \<open>HEDWIG.x\<close> is the namespace's text followed by \<open>x\<close>) and
  \<open>EXAMPLE_SCHEMA\<close> come from settings.py, \<open>avg\<close> and \<open>std\<close> from helpers.py; neither file
  is part of the sources, so they are parameters. \<open>EXAMPLE_SCHEMA\<close> stands for the triples
  that parsing the schema adds to the graph. \<open>py_float\<close> is Python's \<open>float()\<close> on the text
  of a literal, and \<open>recursion_limit\<close> is the number of nested calls of \<open>closure\<close> that the
  interpreter's stack allows.
\<close>

record env =
  HEDWIG :: string
  EXAMPLE_SCHEMA :: graph
  py_float :: "string \<Rightarrow> error + real"
  avg :: "pyval list \<Rightarrow> error + real"
  std :: "pyval list \<Rightarrow> error + real"
  recursion_limit :: nat

text \<open>
  \<open>unicode(s).encode('ascii', 'ignore')\<close> drops every character that is not ASCII;
  \<open>str(s)\<close> of such a text raises.
\<close>

definition is_ascii :: "char \<Rightarrow> bool" where
  "is_ascii c = (\<not> digit7 c)"

definition to_uni :: "string \<Rightarrow> string" where
  "to_uni s = filter is_ascii s"

definition py_str :: "string \<Rightarrow> error + string" where
  "py_str s = (if list_all is_ascii s then Inr s else Inl UnicodeEncodeError)"

subsection \<open>Sets and dictionaries\<close>

definition set_add :: "'a \<Rightarrow> 'a list \<Rightarrow> 'a list" where
  "set_add x xs = (if x \<in> set xs then xs else xs @ [x])"

definition set_update :: "'a list \<Rightarrow> 'a list \<Rightarrow> 'a list" where
  "set_update xs ys = fold set_add ys xs"

definition set_intersection :: "'a list \<Rightarrow> 'a list \<Rightarrow> 'a list" where
  "set_intersection xs ys = filter (\<lambda>x. x \<in> set ys) xs"

definition keys :: "('k \<times> 'v) list \<Rightarrow> 'k list" where
  "keys d = map fst d"

definition has_key :: "('k \<times> 'v) list \<Rightarrow> 'k \<Rightarrow> bool" where
  "has_key d k = (k \<in> set (keys d))"

text \<open>
  \<open>d[k]\<close> on a \<open>defaultdict\<close>: a missing key is inserted with the default value. \<open>dd_val\<close>
  is the value read, \<open>dd_touch\<close> the dictionary afterwards.
\<close>

definition dd_val :: "'v \<Rightarrow> ('k \<times> 'v) list \<Rightarrow> 'k \<Rightarrow> 'v" where
  "dd_val dflt d k = (case map_of d k of Some v \<Rightarrow> v | None \<Rightarrow> dflt)"

definition dd_touch :: "'v \<Rightarrow> ('k \<times> 'v) list \<Rightarrow> 'k \<Rightarrow> ('k \<times> 'v) list" where
  "dd_touch dflt d k = (case map_of d k of Some v \<Rightarrow> d | None \<Rightarrow> d @ [(k, dflt)])"

text \<open>\<open>d[k].append(v)\<close> and \<open>d[k].add(v)\<close> on a \<open>defaultdict\<close> of lists and of sets.\<close>

definition dd_append :: "('k \<times> 'v list) list \<Rightarrow> 'k \<Rightarrow> 'v \<Rightarrow> ('k \<times> 'v list) list" where
  "dd_append d k v = AList.update k (dd_val [] d k @ [v]) d"

definition dd_add :: "('k \<times> 'v list) list \<Rightarrow> 'k \<Rightarrow> 'v \<Rightarrow> ('k \<times> 'v list) list" where
  "dd_add d k v = AList.update k (set_add v (dd_val [] d k)) d"

definition dd_update :: "('k \<times> 'v list) list \<Rightarrow> 'k \<Rightarrow> 'v list \<Rightarrow> ('k \<times> 'v list) list" where
  "dd_update d k vs = AList.update k (set_update (dd_val [] d k) vs) d"

subsection \<open>Examples\<close>

text \<open>
  Modelled from the spec: the class \<open>Example\<close> (example.py) is not part of the sources.
  An example has an id, the text of its URI, a score, its annotations and the weights
  of some of them; a numeric score makes it \<open>Ranked\<close>, a label \<open>ClassLabeled\<close>.
\<close>

datatype target = Ranked | ClassLabeled

record example =
  example_id :: int
  label :: string
  score :: pyval
  annotations :: "string list"
  weights :: "(string \<times> real) list"

definition example_target_type :: "example \<Rightarrow> target" where
  "example_target_type ex = (case score ex of Float _ \<Rightarrow> Ranked | Str _ \<Rightarrow> ClassLabeled)"

subsection \<open>The object\<close>

text \<open>
  The attributes of \<open>self\<close>. An attribute that \<open>__init__\<close> has not yet assigned holds
  an empty container (\<open>None\<close> for \<open>mean\<close>, \<open>sd\<close> and \<open>distribution\<close>, of which a finished
  object has either the first two or the third).
\<close>

record kb =
  g :: graph
  user_namespaces :: "string list"
  sub_class_of :: "(string \<times> string list) list"
  super_class_of :: "(string \<times> string list) list"
  predicates :: "string list"
  binary_predicates :: "string list"
  class_values :: "string list"
  examples_uris :: "node list"
  uri_to_idx :: "(node \<times> int) list"
  examples :: "example list"
  target_type :: target
  members :: "(string \<times> int list) list"
  dummy_root :: string
  sub_class_of_closure :: "(string \<times> string list) list"
  levels :: "(nat \<times> string list) list"
  binary_members :: "(string \<times> (int \<times> int list) list) list"
  reverse_binary_members :: "(string \<times> (int \<times> int list) list) list"
  binary_domains :: "(string \<times> bool list \<times> bool list) list"
  bit_members :: "(string \<times> bool list) list"
  bit_binary_members :: "(string \<times> (int \<times> bool list) list) list"
  reverse_bit_binary_members :: "(string \<times> (int \<times> bool list) list) list"
  mean :: "real option"
  sd :: "real option"
  distribution :: "(pyval \<times> nat) list option"

subsection \<open>Methods used by the constructor\<close>

definition startswith :: "string \<Rightarrow> string \<Rightarrow> bool" where
  "startswith uri ns = (take (length ns) uri = ns)"

definition user_defined :: "kb \<Rightarrow> string \<Rightarrow> bool" where
  "user_defined self uri =
     (if user_namespaces self \<noteq> [] then list_ex (\<lambda>ns. startswith uri ns) (user_namespaces self)
      else True)"

definition add_sub_class :: "kb \<Rightarrow> string \<Rightarrow> string \<Rightarrow> kb" where
  "add_sub_class self sub ob =
     (let sub' = to_uni sub; ob' = to_uni ob in
      self\<lparr>predicates := set_update (predicates self) [sub', ob'],
           sub_class_of := dd_append (sub_class_of self) sub' ob',
           super_class_of := dd_append (super_class_of self) ob' sub'\<rparr>)"

definition n_examples :: "kb \<Rightarrow> nat" where
  "n_examples self = length (examples self)"

definition get_full_domain :: "kb \<Rightarrow> bool list" where
  "get_full_domain self = replicate (n_examples self) True"

definition get_empty_domain :: "kb \<Rightarrow> bool list" where
  "get_empty_domain self = replicate (n_examples self) False"

text \<open>
  \<open>bits[idx] = True\<close>: an index from \<open>-len\<close> to \<open>-1\<close> counts from the end, any other index
  outside the bitset raises.
\<close>

definition set_bit_at :: "bool list \<Rightarrow> int \<Rightarrow> error + bool list" where
  "set_bit_at bits idx =
     (let n = int (length bits); j = (if idx < 0 then n + idx else idx) in
      if 0 \<le> j \<and> j < n then Inr (bits[nat j := True]) else Inl IndexError)"

fun set_bits :: "bool list \<Rightarrow> int list \<Rightarrow> error + bool list" where
  "set_bits bits [] = Inr bits"
| "set_bits bits (idx # indices) =
     (case set_bit_at bits idx of Inl e \<Rightarrow> Inl e | Inr bits' \<Rightarrow> set_bits bits' indices)"

definition indices_to_bits :: "kb \<Rightarrow> int list \<Rightarrow> error + bool list" where
  "indices_to_bits self indices = set_bits (get_empty_domain self) indices"

text \<open>\<open>bits.search(bitarray([1]))\<close>: the positions of the set bits, ascending.\<close>

definition bits_to_indices :: "kb \<Rightarrow> bool list \<Rightarrow> int list" where
  "bits_to_indices self bits = map int (filter (\<lambda>i. bits ! i) [0..<length bits])"

subsection \<open>The constructor, step by step\<close>

text \<open>The annotation links of one example: the inner loop of the example loop.\<close>

fun read_links ::
  "env \<Rightarrow> graph \<Rightarrow> node list \<Rightarrow> string list \<Rightarrow> (string \<times> real) list
    \<Rightarrow> error + (string list \<times> (string \<times> real) list)" where
  "read_links E gr [] annots ws = Inr (annots, ws)"
| "read_links E gr (link # links) annots ws =
     (case map to_uni (objects gr link (HEDWIG E @ ''annotation'')) of
        [] \<Rightarrow> Inl IndexError
      | annotation # _ \<Rightarrow>
          (case objects gr link (HEDWIG E @ ''weight'') of
             [] \<Rightarrow> read_links E gr links (annots @ [annotation]) ws
           | w # _ \<Rightarrow>
               (case py_float E w of
                  Inl e \<Rightarrow> Inl e
                | Inr f \<Rightarrow>
                    read_links E gr links (annots @ [annotation])
                      (AList.update annotation f ws))))"

text \<open>The score of one example, or else its class label, which joins \<open>class_values\<close>.\<close>

definition read_score :: "env \<Rightarrow> graph \<Rightarrow> node \<Rightarrow> string list \<Rightarrow> error + (pyval \<times> string list)" where
  "read_score E gr ex_uri cvs =
     (case objects gr ex_uri (HEDWIG E @ ''score'') of
        s # _ \<Rightarrow> (case py_float E s of Inl e \<Rightarrow> Inl e | Inr f \<Rightarrow> Inr (Float f, cvs))
      | [] \<Rightarrow>
          (case objects gr ex_uri (HEDWIG E @ ''class_label'') of
             [] \<Rightarrow> Inl IndexError
           | c # _ \<Rightarrow>
               (case py_str c of Inl e \<Rightarrow> Inl e | Inr s \<Rightarrow> Inr (Str s, set_add s cvs))))"

text \<open>\<open>for i, ex_uri in enumerate(self.examples_uris)\<close>, from index \<open>i\<close> on.\<close>

fun load_examples :: "env \<Rightarrow> kb \<Rightarrow> int \<Rightarrow> node list \<Rightarrow> example list \<Rightarrow> error + (kb \<times> example list)" where
  "load_examples E self i [] exs = Inr (self, exs)"
| "load_examples E self i (ex_uri # rest) exs =
     (case read_links E (g self) (objects (g self) ex_uri (HEDWIG E @ ''annotated_with'')) [] [] of
        Inl e \<Rightarrow> Inl e
      | Inr (annots, ws) \<Rightarrow>
          (case read_score E (g self) ex_uri (class_values self) of
             Inl e \<Rightarrow> Inl e
           | Inr (sc, cvs) \<Rightarrow>
               (case py_str ex_uri of
                  Inl e \<Rightarrow> Inl e
                | Inr lbl \<Rightarrow>
                    load_examples E
                      (self\<lparr>class_values := cvs,
                            uri_to_idx := AList.update ex_uri i (uri_to_idx self)\<rparr>)
                      (i + 1) rest
                      (exs @ [\<lparr>example_id = i, label = lbl, score = sc,
                               annotations = annots, weights = ws\<rparr>]))))"

text \<open>The two loops that fill the hierarchy from the edges with a given graph predicate.\<close>

fun add_edges :: "kb \<Rightarrow> (node \<times> node) list \<Rightarrow> kb" where
  "add_edges self [] = self"
| "add_edges self ((sub, ob) # rest) =
     add_edges (if user_defined self sub \<and> user_defined self ob
                then add_sub_class self sub ob else self) rest"

text \<open>The object predicates whose domain and range are the examples.\<close>

fun add_binary_predicates :: "kb \<Rightarrow> node list \<Rightarrow> error + kb" where
  "add_binary_predicates self [] = Inr self"
| "add_binary_predicates self (pred # rest) =
     (if user_defined self pred then
        (case py_str pred of
           Inl e \<Rightarrow> Inl e
         | Inr p \<Rightarrow>
             add_binary_predicates
               (self\<lparr>binary_predicates := set_add p (binary_predicates self)\<rparr>) rest)
      else add_binary_predicates self rest)"

text \<open>The members of each predicate: the loops over the examples and their annotations.\<close>

fun add_parents :: "(string \<times> int list) list \<Rightarrow> int \<Rightarrow> node list \<Rightarrow> error + (string \<times> int list) list" where
  "add_parents ms i [] = Inr ms"
| "add_parents ms i (ob # rest) =
     (case py_str ob of Inl e \<Rightarrow> Inl e | Inr p \<Rightarrow> add_parents (dd_add ms p i) i rest)"

fun add_annotations ::
  "graph \<Rightarrow> bool \<Rightarrow> (string \<times> int list) list \<Rightarrow> int \<Rightarrow> string list
    \<Rightarrow> error + (string \<times> int list) list" where
  "add_annotations gr leaves ms i [] = Inr ms"
| "add_annotations gr leaves ms i (inst # rest) =
     (if leaves then add_annotations gr leaves (dd_add ms inst i) i rest
      else
        (case add_parents ms i (objects gr inst RDF_type) of
           Inl e \<Rightarrow> Inl e
         | Inr ms' \<Rightarrow> add_annotations gr leaves ms' i rest))"

fun calc_members ::
  "graph \<Rightarrow> bool \<Rightarrow> (string \<times> int list) list \<Rightarrow> example list
    \<Rightarrow> error + (string \<times> int list) list" where
  "calc_members gr leaves ms [] = Inr ms"
| "calc_members gr leaves ms (ex # rest) =
     (case add_annotations gr leaves ms (example_id ex) (annotations ex) of
        Inl e \<Rightarrow> Inl e
      | Inr ms' \<Rightarrow> calc_members gr leaves ms' rest)"

text \<open>
  \<open>filter(lambda pred: self.sub_class_of[pred] == [], self.super_class_of.keys())\<close>:
  the roots found, and \<open>sub_class_of\<close> after the reads.
\<close>

fun find_roots ::
  "(string \<times> string list) list \<Rightarrow> string list \<Rightarrow> string list \<times> (string \<times> string list) list" where
  "find_roots sco [] = ([], sco)"
| "find_roots sco (pred # rest) =
     (let (roots, sco') = find_roots (dd_touch [] sco pred) rest in
      (if dd_val [] sco pred = [] then pred # roots else roots, sco'))"

fun add_roots :: "kb \<Rightarrow> string list \<Rightarrow> kb" where
  "add_roots self [] = self"
| "add_roots self (r # rest) = add_roots (add_sub_class self r (dummy_root self)) rest"

text \<open>The closure of each key of \<open>super_class_of\<close> starts as its direct super classes.\<close>

fun init_closure :: "kb \<Rightarrow> string list \<Rightarrow> kb" where
  "init_closure self [] = self"
| "init_closure self (pred # rest) =
     init_closure
       (self\<lparr>sub_class_of := dd_touch [] (sub_class_of self) pred,
             sub_class_of_closure :=
               dd_update (sub_class_of_closure self) pred (dd_val [] (sub_class_of self) pred)\<rparr>)
       rest"

text \<open>
  The local function \<open>closure\<close> and its loop over the children. The first argument is
  the number of nested calls still allowed: a call with none left is the interpreter's
  "maximum recursion depth exceeded".
\<close>

fun closure :: "nat \<Rightarrow> string \<Rightarrow> nat \<Rightarrow> kb \<Rightarrow> error + (int list \<times> kb)"
  and closure_children ::
    "nat \<Rightarrow> string \<Rightarrow> nat \<Rightarrow> string list \<Rightarrow> int list \<Rightarrow> kb \<Rightarrow> error + (int list \<times> kb)" where
  "closure 0 pred lvl self = Inl RecursionError"
| "closure (Suc d) pred lvl self =
     (let children = dd_val [] (super_class_of self) pred;
          self1 = self\<lparr>super_class_of := dd_touch [] (super_class_of self) pred\<rparr>;
          self2 = self1\<lparr>levels := dd_add (levels self1) lvl pred\<rparr>
      in if children \<noteq> [] then
           (case closure_children d pred lvl children [] self2 of
              Inl e \<Rightarrow> Inl e
            | Inr (mems, self3) \<Rightarrow>
                Inr (mems, self3\<lparr>members := AList.update pred mems (members self3)\<rparr>))
         else
           Inr (dd_val [] (members self2) pred,
                self2\<lparr>members := dd_touch [] (members self2) pred\<rparr>))"
| "closure_children d pred lvl [] mems self = Inr (mems, self)"
| "closure_children d pred lvl (child # rest) mems self =
     (let parent_closure = dd_val [] (sub_class_of_closure self) pred;
          self1 = self\<lparr>sub_class_of_closure := dd_touch [] (sub_class_of_closure self) pred\<rparr>;
          self2 = self1\<lparr>sub_class_of_closure :=
                          dd_update (sub_class_of_closure self1) child parent_closure\<rparr>
      in case closure d child (lvl + 1) self2 of
           Inl e \<Rightarrow> Inl e
         | Inr (r, self3) \<Rightarrow> closure_children d pred lvl rest (set_update mems r) self3)"

text \<open>
  The members of the binary predicates. \<open>link d a b\<close> is the body's
  \<open>if d.has_key(a): d[a].append(b) else: d[a] = [b]\<close>; the dictionary \<open>d\<close> is read from a
  \<open>defaultdict\<close>, which thereby gets its key.
\<close>

definition link :: "(int \<times> int list) list \<Rightarrow> int \<Rightarrow> int \<Rightarrow> (int \<times> int list) list" where
  "link d a b =
     (if has_key d a then AList.update a (dd_val [] d a @ [b]) d else AList.update a [b] d)"

definition dd_link ::
  "(string \<times> (int \<times> int list) list) list \<Rightarrow> string \<Rightarrow> int \<Rightarrow> int
    \<Rightarrow> (string \<times> (int \<times> int list) list) list" where
  "dd_link bm pred a b = AList.update pred (link (dd_val [] bm pred) a b) (dd_touch [] bm pred)"

fun add_pairs :: "kb \<Rightarrow> string \<Rightarrow> (node \<times> node) list \<Rightarrow> error + kb" where
  "add_pairs self pred [] = Inr self"
| "add_pairs self pred ((s, ob) # rest) =
     (case map_of (uri_to_idx self) s of
        None \<Rightarrow> Inl KeyError
      | Some el1 \<Rightarrow>
          (case map_of (uri_to_idx self) ob of
             None \<Rightarrow> Inl KeyError
           | Some el2 \<Rightarrow>
               add_pairs
                 (self\<lparr>binary_members := dd_link (binary_members self) pred el1 el2,
                       reverse_binary_members :=
                         dd_link (reverse_binary_members self) pred el2 el1\<rparr>)
                 pred rest))"

fun calc_binary_members :: "kb \<Rightarrow> string list \<Rightarrow> error + kb" where
  "calc_binary_members self [] = Inr self"
| "calc_binary_members self (pred # rest) =
     (case add_pairs self pred (subject_objects (g self) pred) of
        Inl e \<Rightarrow> Inl e
      | Inr self' \<Rightarrow> calc_binary_members self' rest)"

text \<open>The bitsets of the examples in the domain and in the range of each binary predicate.\<close>

fun calc_binary_domains :: "kb \<Rightarrow> string list \<Rightarrow> error + kb" where
  "calc_binary_domains self [] = Inr self"
| "calc_binary_domains self (pred # rest) =
     (let self1 = self\<lparr>binary_members := dd_touch [] (binary_members self) pred\<rparr> in
      case indices_to_bits self1 (keys (dd_val [] (binary_members self) pred)) of
        Inl e \<Rightarrow> Inl e
      | Inr dbits \<Rightarrow>
          (let self2 = self1\<lparr>reverse_binary_members :=
                                dd_touch [] (reverse_binary_members self1) pred\<rparr> in
           case indices_to_bits self2 (keys (dd_val [] (reverse_binary_members self1) pred)) of
             Inl e \<Rightarrow> Inl e
           | Inr rbits \<Rightarrow>
               calc_binary_domains
                 (self2\<lparr>binary_domains :=
                          AList.update pred (dbits, rbits) (binary_domains self2)\<rparr>)
                 rest))"

text \<open>The bitset of each member set.\<close>

fun calc_bit_members :: "kb \<Rightarrow> string list \<Rightarrow> error + kb" where
  "calc_bit_members self [] = Inr self"
| "calc_bit_members self (pred # rest) =
     (case map_of (members self) pred of
        None \<Rightarrow> Inl KeyError
      | Some ms \<Rightarrow>
          (case indices_to_bits self ms of
             Inl e \<Rightarrow> Inl e
           | Inr bits \<Rightarrow>
               calc_bit_members
                 (self\<lparr>bit_members := AList.update pred bits (bit_members self)\<rparr>) rest))"

text \<open>
  The bitset of each list of a binary predicate's two dictionaries: the loop
  \<open>for el in d.keys(): bbm[pred][el] = self.indices_to_bits(d[el])\<close>, where \<open>bbm\<close> is a
  \<open>defaultdict\<close> of dictionaries.
\<close>

fun store_bit_lists ::
  "kb \<Rightarrow> (int \<times> int list) list \<Rightarrow> string \<Rightarrow> int list
    \<Rightarrow> (string \<times> (int \<times> bool list) list) list
    \<Rightarrow> error + (string \<times> (int \<times> bool list) list) list" where
  "store_bit_lists self d pred [] bbm = Inr bbm"
| "store_bit_lists self d pred (el # rest) bbm =
     (case map_of d el of
        None \<Rightarrow> Inl KeyError
      | Some js \<Rightarrow>
          (case indices_to_bits self js of
             Inl e \<Rightarrow> Inl e
           | Inr bits \<Rightarrow>
               store_bit_lists self d pred rest
                 (AList.update pred (AList.update el bits (dd_val [] bbm pred)) bbm)))"

fun calc_bit_binary_members :: "kb \<Rightarrow> string list \<Rightarrow> error + kb" where
  "calc_bit_binary_members self [] = Inr self"
| "calc_bit_binary_members self (pred # rest) =
     (let fwd = dd_val [] (binary_members self) pred in
      case store_bit_lists self fwd pred (keys fwd) (bit_binary_members self) of
        Inl e \<Rightarrow> Inl e
      | Inr bbm \<Rightarrow>
          (let rev = dd_val [] (reverse_binary_members self) pred;
               self1 = self\<lparr>bit_binary_members := bbm,
                             reverse_binary_members :=
                               dd_touch [] (reverse_binary_members self) pred\<rparr> in
           case store_bit_lists self1 rev pred (keys rev) (reverse_bit_binary_members self1) of
             Inl e \<Rightarrow> Inl e
           | Inr rbbm \<Rightarrow>
               calc_bit_binary_members (self1\<lparr>reverse_bit_binary_members := rbbm\<rparr>) rest))"

text \<open>The statistics: mean and deviation of the scores, or the number of examples per label.\<close>

definition count_scores :: "example list \<Rightarrow> (pyval \<times> nat) list" where
  "count_scores exs = fold (\<lambda>ex d. AList.update (score ex) (dd_val 0 d (score ex) + 1) d) exs []"

definition statistics :: "env \<Rightarrow> kb \<Rightarrow> error + kb" where
  "statistics E self =
     (if target_type self = Ranked then
        (case avg E (map score (examples self)) of
           Inl e \<Rightarrow> Inl e
         | Inr m \<Rightarrow>
             (case std E (map score (examples self)) of
                Inl e \<Rightarrow> Inl e
              | Inr s \<Rightarrow> Inr (self\<lparr>mean := Some m, sd := Some s\<rparr>)))
      else Inr (self\<lparr>distribution := Some (count_scores (examples self))\<rparr>))"

subsection \<open>The constructor\<close>

text \<open>
  \<open>__init__\<close> in the order of the source: the attributes and the examples (up to the
  check that there are examples), the hierarchy with the binary predicates and the
  members, the dummy root with the initial closures, the traversal from the root, the
  tables of the binary predicates with all bitsets, and the statistics. The argument
  \<open>score_fun\<close> is only stored and is left out.
\<close>

definition no_examples_message :: "env \<Rightarrow> string" where
  "no_examples_message E =
     ''No examples provided! Examples should be '' @ replicate 29 (CHR '' '') @
     ''instances of '' @ HEDWIG E @ ''.''"

definition new_kb :: "graph \<Rightarrow> string list \<Rightarrow> kb" where
  "new_kb gr namespaces =
     \<lparr>g = gr, user_namespaces = namespaces, sub_class_of = [], super_class_of = [],
      predicates = [], binary_predicates = [], class_values = [], examples_uris = [],
      uri_to_idx = [], examples = [], target_type = Ranked, members = [], dummy_root = [],
      sub_class_of_closure = [], levels = [], binary_members = [],
      reverse_binary_members = [], binary_domains = [], bit_members = [],
      bit_binary_members = [], reverse_bit_binary_members = [], mean = None, sd = None,
      distribution = None\<rparr>"

definition load :: "env \<Rightarrow> graph \<Rightarrow> string list \<Rightarrow> error + kb" where
  "load E triplets namespaces =
     (let self0 = new_kb (triplets @ EXAMPLE_SCHEMA E) namespaces;
          self1 = self0\<lparr>examples_uris := subjects (g self0) RDF_type (HEDWIG E @ ''Example'')\<rparr>
      in case load_examples E self1 0 (examples_uris self1) [] of
           Inl e \<Rightarrow> Inl e
         | Inr (self2, exs) \<Rightarrow>
             (case exs of
                [] \<Rightarrow> Inl (Exception (no_examples_message E))
              | ex0 # _ \<Rightarrow>
                  Inr (self2\<lparr>examples := exs, target_type := example_target_type ex0\<rparr>)))"

definition build_hierarchy :: "env \<Rightarrow> bool \<Rightarrow> kb \<Rightarrow> error + kb" where
  "build_hierarchy E instances_as_leaves self =
     (let self1 = add_edges self (subject_objects (g self) RDFS_subClassOf);
          self2 = (if instances_as_leaves
                   then add_edges self1 (subject_objects (g self1) RDF_type) else self1);
          examples_as_domain =
            set_update [] (subjects (g self2) RDFS_domain (HEDWIG E @ ''Example''));
          examples_as_range =
            set_update [] (subjects (g self2) RDFS_range (HEDWIG E @ ''Example''))
      in case add_binary_predicates self2
                (set_intersection examples_as_domain examples_as_range) of
           Inl e \<Rightarrow> Inl e
         | Inr self3 \<Rightarrow>
             (case calc_members (g self3) instances_as_leaves [] (examples self3) of
                Inl e \<Rightarrow> Inl e
              | Inr ms \<Rightarrow> Inr (self3\<lparr>members := ms\<rparr>)))"

definition add_dummy_root :: "kb \<Rightarrow> kb" where
  "add_dummy_root self =
     (let (roots, sco) = find_roots (sub_class_of self) (keys (super_class_of self));
          self1 = self\<lparr>sub_class_of := sco, dummy_root := ''root''\<rparr>;
          self2 = self1\<lparr>predicates := set_add (dummy_root self1) (predicates self1)\<rparr>;
          self3 = add_roots self2 roots
      in init_closure (self3\<lparr>sub_class_of_closure := []\<rparr>) (keys (super_class_of self3)))"

definition run_closure :: "env \<Rightarrow> kb \<Rightarrow> error + kb" where
  "run_closure E self =
     (case closure (recursion_limit E) (dummy_root self) 0 (self\<lparr>levels := []\<rparr>) of
        Inl e \<Rightarrow> Inl e
      | Inr (mems, self') \<Rightarrow> Inr self')"

definition index_binary :: "kb \<Rightarrow> error + kb" where
  "index_binary self =
     (case calc_binary_members (self\<lparr>binary_members := [], reverse_binary_members := []\<rparr>)
             (binary_predicates self) of
        Inl e \<Rightarrow> Inl e
      | Inr self1 \<Rightarrow>
          (case calc_binary_domains (self1\<lparr>binary_domains := []\<rparr>) (binary_predicates self1) of
             Inl e \<Rightarrow> Inl e
           | Inr self2 \<Rightarrow>
               (case calc_bit_members (self2\<lparr>bit_members := []\<rparr>) (keys (members self2)) of
                  Inl e \<Rightarrow> Inl e
                | Inr self3 \<Rightarrow>
                    calc_bit_binary_members
                      (self3\<lparr>bit_binary_members := [], reverse_bit_binary_members := []\<rparr>)
                      (keys (binary_members self3)))))"

definition init :: "env \<Rightarrow> graph \<Rightarrow> string list \<Rightarrow> bool \<Rightarrow> error + kb" where
  "init E triplets namespaces instances_as_leaves =
     (case load E triplets namespaces of
        Inl e \<Rightarrow> Inl e
      | Inr self1 \<Rightarrow>
          (case build_hierarchy E instances_as_leaves self1 of
             Inl e \<Rightarrow> Inl e
           | Inr self2 \<Rightarrow>
               (case run_closure E (add_dummy_root self2) of
                  Inl e \<Rightarrow> Inl e
                | Inr self3 \<Rightarrow>
                    (case index_binary self3 of
                       Inl e \<Rightarrow> Inl e
                     | Inr self4 \<Rightarrow> statistics E self4))))"

subsection \<open>The read operations\<close>

text \<open>
  A read of a \<open>defaultdict\<close> may insert the key, so these operations return the object
  too. \<open>get_members\<close> returns one of four kinds of value.
\<close>

datatype members_value =
    Bits "bool list"
  | Ids "int list"
  | BitMap "(int \<times> bool list) list"
  | IdMap "(int \<times> int list) list"

definition super_classes :: "kb \<Rightarrow> string \<Rightarrow> string list \<times> kb" where
  "super_classes self pred =
     (dd_val [] (sub_class_of_closure self) pred,
      self\<lparr>sub_class_of_closure := dd_touch [] (sub_class_of_closure self) pred\<rparr>)"

definition get_subclasses :: "kb \<Rightarrow> string \<Rightarrow> string list \<times> kb" where
  "get_subclasses self lbl =
     (dd_val [] (super_class_of self) lbl,
      self\<lparr>super_class_of := dd_touch [] (super_class_of self) lbl\<rparr>)"

definition get_members :: "kb \<Rightarrow> string \<Rightarrow> bool \<Rightarrow> error + (members_value \<times> kb)" where
  "get_members self predicate as_bit =
     (if predicate \<in> set (predicates self) then
        (if as_bit then
           (case map_of (bit_members self) predicate of
              None \<Rightarrow> Inl KeyError
            | Some b \<Rightarrow> Inr (Bits b, self))
         else
           Inr (Ids (dd_val [] (members self) predicate),
                self\<lparr>members := dd_touch [] (members self) predicate\<rparr>))
      else
        (if as_bit then
           Inr (BitMap (dd_val [] (bit_binary_members self) predicate),
                self\<lparr>bit_binary_members := dd_touch [] (bit_binary_members self) predicate\<rparr>)
         else
           Inr (IdMap (dd_val [] (binary_members self) predicate),
                self\<lparr>binary_members := dd_touch [] (binary_members self) predicate\<rparr>)))"

definition get_reverse_members :: "kb \<Rightarrow> string \<Rightarrow> bool \<Rightarrow> members_value \<times> kb" where
  "get_reverse_members self predicate as_bit =
     (if as_bit then
        (BitMap (dd_val [] (reverse_bit_binary_members self) predicate),
         self\<lparr>reverse_bit_binary_members :=
                dd_touch [] (reverse_bit_binary_members self) predicate\<rparr>)
      else
        (IdMap (dd_val [] (reverse_binary_members self) predicate),
         self\<lparr>reverse_binary_members := dd_touch [] (reverse_binary_members self) predicate\<rparr>))"

definition get_domains :: "kb \<Rightarrow> string \<Rightarrow> error + (bool list \<times> bool list)" where
  "get_domains self predicate =
     (case map_of (binary_domains self) predicate of None \<Rightarrow> Inl KeyError | Some p \<Rightarrow> Inr p)"

definition get_examples :: "kb \<Rightarrow> example list" where
  "get_examples self = examples self"

subsection \<open>Notions used in the statements\<close>

text \<open>
  \<open>forward self b i\<close> is \<open>binary_members[b][i]\<close> and \<open>reverse self b j\<close> is
  \<open>reverse_binary_members[b][j]\<close>, a missing key read as the empty list.
\<close>

definition forward :: "kb \<Rightarrow> string \<Rightarrow> int \<Rightarrow> int list" where
  "forward self b i = dd_val [] (dd_val [] (binary_members self) b) i"

definition reverse :: "kb \<Rightarrow> string \<Rightarrow> int \<Rightarrow> int list" where
  "reverse self b j = dd_val [] (dd_val [] (reverse_binary_members self) b) j"

text \<open>
  The hierarchy as a relation from a predicate to its direct subclasses, and the
  members of the leaves below a predicate.
\<close>

definition subclass_rel :: "kb \<Rightarrow> (string \<times> string) set" where
  "subclass_rel self = {(p, c). c \<in> set (dd_val [] (super_class_of self) p)}"

definition leaf_members :: "kb \<Rightarrow> string \<Rightarrow> int set" where
  "leaf_members self p =
     \<Union> {set (dd_val [] (members self) c) | c.
          (p, c) \<in> (subclass_rel self)\<^sup>* \<and> dd_val [] (super_class_of self) c = []}"

text \<open>
  What a step of the constructor leaves alone: the graph with the examples, the
  hierarchy with the members, and the lists of the binary predicates.
\<close>

definition same_input :: "kb \<Rightarrow> kb \<Rightarrow> bool" where
  "same_input s s' =
     (g s' = g s \<and> uri_to_idx s' = uri_to_idx s \<and> examples s' = examples s)"

definition same_hierarchy :: "kb \<Rightarrow> kb \<Rightarrow> bool" where
  "same_hierarchy s s' =
     (members s' = members s \<and> super_class_of s' = super_class_of s \<and>
      dummy_root s' = dummy_root s \<and> binary_predicates s' = binary_predicates s)"

definition same_binary :: "kb \<Rightarrow> kb \<Rightarrow> bool" where
  "same_binary s s' =
     (\<forall>b. dd_val [] (binary_members s') b = dd_val [] (binary_members s) b \<and>
          dd_val [] (reverse_binary_members s') b = dd_val [] (reverse_binary_members s) b)"

text \<open>
  What the traversal of the hierarchy leaves alone: the input, the binary predicates,
  the root, the subclasses read for every predicate, and the members of every
  predicate without subclasses.
\<close>

definition same_leaves :: "kb \<Rightarrow> kb \<Rightarrow> bool" where
  "same_leaves s s' =
     (same_input s s' \<and> binary_predicates s' = binary_predicates s \<and>
      dummy_root s' = dummy_root s \<and>
      (\<forall>k. dd_val [] (super_class_of s') k = dd_val [] (super_class_of s) k) \<and>
      (\<forall>k. dd_val [] (super_class_of s) k = [] \<longrightarrow>
           dd_val [] (members s') k = dd_val [] (members s) k))"

text \<open>
  The ids of the examples that are the subject, and that are the object, of some pair
  of a binary predicate in the graph.
\<close>

definition domain_ids :: "kb \<Rightarrow> string \<Rightarrow> int set" where
  "domain_ids self b =
     {i. \<exists>s ob. (s, ob) \<in> set (subject_objects (g self) b) \<and>
                 map_of (uri_to_idx self) s = Some i}"

definition range_ids :: "kb \<Rightarrow> string \<Rightarrow> int set" where
  "range_ids self b =
     {j. \<exists>s ob. (s, ob) \<in> set (subject_objects (g self) b) \<and>
                 map_of (uri_to_idx self) ob = Some j}"

subsection \<open>Fixtures\<close>

text \<open>
  A namespace \<open>h:\<close>, no schema triples, a \<open>float()\<close> that reads \<open>1\<close> and \<open>2\<close>, and room for
  twenty nested calls.
\<close>

definition env0 :: env where
  "env0 =
     \<lparr>HEDWIG = ''h:'', EXAMPLE_SCHEMA = [],
      py_float = (\<lambda>s. if s = ''1'' then Inr 1 else if s = ''2'' then Inr 2 else Inl ValueError),
      avg = (\<lambda>xs. Inr 0), std = (\<lambda>xs. Inr 0), recursion_limit = 20\<rparr>"

text \<open>Three labelled examples and the relation \<open>linkedTo\<close> with the pairs (0,1) and (1,2).\<close>

definition graph_linked :: graph where
  "graph_linked =
     [(''e0'', RDF_type, ''h:Example''), (''e0'', ''h:class_label'', ''pos''),
      (''e1'', RDF_type, ''h:Example''), (''e1'', ''h:class_label'', ''pos''),
      (''e2'', RDF_type, ''h:Example''), (''e2'', ''h:class_label'', ''neg''),
      (''linkedTo'', RDFS_domain, ''h:Example''), (''linkedTo'', RDFS_range, ''h:Example''),
      (''e0'', ''linkedTo'', ''e1''), (''e1'', ''linkedTo'', ''e2'')]"


definition graph_unscored :: graph where
  "graph_unscored =
     [(''e0'', RDF_type, ''h:Example''), (''e0'', ''h:class_label'', ''pos''),
      (''e1'', RDF_type, ''h:Example'')]"

text \<open>
  Two labelled examples, the first annotated with the concept \<open>A\<close>, a subclass of \<open>B\<close>; the
  second has no annotation.
\<close>

definition graph_annotated :: graph where
  "graph_annotated =
     [(''e0'', RDF_type, ''h:Example''), (''e0'', ''h:class_label'', ''pos''),
      (''e0'', ''h:annotated_with'', ''l0''), (''l0'', ''h:annotation'', ''A''),
      (''e1'', RDF_type, ''h:Example''), (''e1'', ''h:class_label'', ''neg''),
      (''A'', RDFS_subClassOf, ''B'')]"

section \<open>Properties\<close>

subsection \<open>Dictionaries\<close>

lemma dd_val_absent: "k \<notin> set (keys d) \<Longrightarrow> dd_val dflt d k = dflt"
  by (simp add: dd_val_def keys_def map_of_eq_None_iff [THEN iffD2])

lemma dd_val_update: "dd_val dflt (AList.update k v d) k' = (if k' = k then v else dd_val dflt d k')"
  by (simp add: dd_val_def update_conv')

lemma dd_val_touch: "dd_val dflt (dd_touch dflt d k) k' = dd_val dflt d k'"
  by (cases "map_of d k") (auto simp: dd_val_def dd_touch_def map_add_def split: option.splits)

subsection \<open>The namespace test\<close>

lemma startswith_prefix: "startswith uri ns = prefix ns uri"
  unfolding startswith_def by (metis append_eq_conv_conj prefix_def)

text \<open>
  C8. \<open>user_defined\<close> accepts every identifier when the list of namespaces is empty, and
  otherwise accepts an identifier exactly when one of the namespaces is a prefix of it.
\<close>

theorem user_defined_spec:
  "(user_namespaces self = [] \<longrightarrow> user_defined self uri) \<and>
   (user_namespaces self \<noteq> [] \<longrightarrow>
      user_defined self uri = (\<exists>ns \<in> set (user_namespaces self). prefix ns uri))"
  by (simp add: user_defined_def list_ex_iff startswith_prefix)

theorem user_defined_spec_witness:
  "user_defined (new_kb [] []) ''x'' \<and>
   user_defined (new_kb [] [''a:'', ''b:'']) ''b:x'' \<and>
   \<not> user_defined (new_kb [] [''a:'', ''b:'']) ''c:x''"
  using user_defined_spec [of "new_kb [] []" "''x''"]
    user_defined_spec [of "new_kb [] [''a:'', ''b:'']" "''b:x''"]
    user_defined_spec [of "new_kb [] [''a:'', ''b:'']" "''c:x''"]
  by (simp add: new_kb_def)

subsection \<open>Bitsets\<close>

lemma set_bit_at_ok:
  assumes "0 \<le> idx" "idx < int (length bits)"
  shows "set_bit_at bits idx = Inr (bits[nat idx := True])"
  using assms by (simp add: set_bit_at_def Let_def)

lemma set_bits_in_range:
  "set S \<subseteq> {0..<int (length bits)} \<Longrightarrow>
   \<exists>bits'. set_bits bits S = Inr bits' \<and> length bits' = length bits \<and>
     (\<forall>i < length bits. bits' ! i = (bits ! i \<or> int i \<in> set S))"
proof (induction S arbitrary: bits)
  case Nil
  then show ?case by simp
next
  case (Cons idx S)
  have r: "0 \<le> idx" "idx < int (length bits)" using Cons.prems by auto
  let ?b = "bits[nat idx := True]"
  have "set S \<subseteq> {0..<int (length ?b)}" using Cons.prems by simp
  from Cons.IH [OF this] obtain bits' where
    b: "set_bits ?b S = Inr bits'" "length bits' = length ?b"
       "\<forall>i < length ?b. bits' ! i = (?b ! i \<or> int i \<in> set S)" by blast
  have "\<forall>i < length bits. bits' ! i = (bits ! i \<or> int i \<in> set (idx # S))"
  proof (intro allI impI)
    fix i assume i: "i < length bits"
    have "?b ! i = (bits ! i \<or> int i = idx)"
      using i r by (auto simp: nth_list_update)
    then show "bits' ! i = (bits ! i \<or> int i \<in> set (idx # S))"
      using b(3) i by auto
  qed
  then show ?case using b r by (simp add: set_bit_at_ok)
qed

lemma bits_to_indices_iff:
  "x \<in> set (bits_to_indices self bits) \<longleftrightarrow> 0 \<le> x \<and> x < int (length bits) \<and> bits ! nat x"
proof
  assume "x \<in> set (bits_to_indices self bits)"
  then obtain i where "x = int i" "i < length bits" "bits ! i"
    by (auto simp: bits_to_indices_def)
  then show "0 \<le> x \<and> x < int (length bits) \<and> bits ! nat x" by simp
next
  assume a: "0 \<le> x \<and> x < int (length bits) \<and> bits ! nat x"
  then have "nat x < length bits" by linarith
  then have "nat x \<in> set (filter (\<lambda>i. bits ! i) [0..<length bits])" using a by simp
  then have "int (nat x) \<in> int ` set (filter (\<lambda>i. bits ! i) [0..<length bits])"
    by (rule imageI)
  then show "x \<in> set (bits_to_indices self bits)"
    using a by (simp add: bits_to_indices_def)
qed

text \<open>
  C4. For a set \<open>S\<close> of indices below the number \<open>N\<close> of examples, \<open>indices_to_bits\<close> returns
  a bitset of length \<open>N\<close>, and \<open>bits_to_indices\<close> of that bitset is exactly \<open>S\<close>.
\<close>

theorem bitset_round_trip:
  "set S \<subseteq> {0..<int (n_examples self)} \<Longrightarrow>
   \<exists>bits. indices_to_bits self S = Inr bits \<and> length bits = n_examples self \<and>
     set (bits_to_indices self bits) = set S"
proof -
  assume S: "set S \<subseteq> {0..<int (n_examples self)}"
  let ?e = "get_empty_domain self"
  have len: "length ?e = n_examples self" by (simp add: get_empty_domain_def)
  from S have "set S \<subseteq> {0..<int (length ?e)}" by (simp add: len)
  from set_bits_in_range [OF this] obtain bits where
    b: "set_bits ?e S = Inr bits" "length bits = length ?e"
       "\<forall>i < length ?e. bits ! i = (?e ! i \<or> int i \<in> set S)" by blast
  have e: "\<forall>i < length ?e. \<not> ?e ! i" by (simp add: get_empty_domain_def)
  have "set (bits_to_indices self bits) = set S"
  proof (rule set_eqI)
    fix x :: int
    show "x \<in> set (bits_to_indices self bits) \<longleftrightarrow> x \<in> set S"
    proof
      assume "x \<in> set (bits_to_indices self bits)"
      then have x: "0 \<le> x" "nat x < length bits" "bits ! nat x"
        by (auto simp: bits_to_indices_iff)
      then have "int (nat x) \<in> set S" using b e by auto
      then show "x \<in> set S" using x by simp
    next
      assume x: "x \<in> set S"
      then have r: "0 \<le> x" "x < int (length bits)" using S b len by auto
      then have "nat x < length ?e" "int (nat x) = x" using b by auto
      then have "bits ! nat x" using b e x by auto
      then show "x \<in> set (bits_to_indices self bits)"
        using r by (simp add: bits_to_indices_iff)
    qed
  qed
  then show ?thesis using b len by (auto simp: indices_to_bits_def)
qed

theorem bitset_round_trip_witness:
  "case init env0 graph_linked [] True of
     Inl e \<Rightarrow> False
   | Inr self \<Rightarrow>
       n_examples self = 3 \<and> indices_to_bits self [2, 0] = Inr [True, False, True] \<and>
       bits_to_indices self [True, False, True] = [0, 2]"
proof -
  have ev: "case init env0 graph_linked [] True of
     Inl e \<Rightarrow> False
   | Inr self \<Rightarrow>
       n_examples self = 3 \<and> indices_to_bits self [2, 0] = Inr [True, False, True] \<and>
       bits_to_indices self [True, False, True] = [0, 2]"
    by code_simp
  then obtain self where s: "init env0 graph_linked [] True = Inr self" "n_examples self = 3"
    by (auto split: sum.splits)
  have "set [2, 0] \<subseteq> {0..<int (n_examples self)}" using s by simp
  from bitset_round_trip [OF this] ev show ?thesis by simp
qed

subsection \<open>Reading the members of an unknown label\<close>

text \<open>
  C10. \<open>get_members\<close> of a label that is neither a unary predicate nor a key of the
  binary member dictionaries does not raise: it returns an empty dictionary, as bitsets
  and as id lists alike.
\<close>

theorem get_members_unknown:
  "predicate \<notin> set (predicates self) \<Longrightarrow>
   predicate \<notin> set (keys (binary_members self)) \<Longrightarrow>
   predicate \<notin> set (keys (bit_binary_members self)) \<Longrightarrow>
   (\<exists>self'. get_members self predicate True = Inr (BitMap [], self')) \<and>
   (\<exists>self'. get_members self predicate False = Inr (IdMap [], self'))"
  by (simp add: get_members_def dd_val_absent)

theorem get_members_unknown_witness:
  "case init env0 graph_linked [] True of
     Inl e \<Rightarrow> False
   | Inr self \<Rightarrow>
       ''knows'' \<notin> set (predicates self) \<and>
       ''knows'' \<notin> set (keys (binary_members self)) \<and>
       ''knows'' \<notin> set (keys (bit_binary_members self)) \<and>
       map_sum id fst (get_members self ''knows'' True) = Inr (BitMap []) \<and>
       map_sum id fst (get_members self ''knows'' False) = Inr (IdMap [])"
proof -
  have ev: "case init env0 graph_linked [] True of
     Inl e \<Rightarrow> False
   | Inr self \<Rightarrow>
       ''knows'' \<notin> set (predicates self) \<and>
       ''knows'' \<notin> set (keys (binary_members self)) \<and>
       ''knows'' \<notin> set (keys (bit_binary_members self))"
    by code_simp
  then obtain self where s: "init env0 graph_linked [] True = Inr self"
    "''knows'' \<notin> set (predicates self)"
    "''knows'' \<notin> set (keys (binary_members self))"
    "''knows'' \<notin> set (keys (bit_binary_members self))"
    by (auto split: sum.splits)
  from get_members_unknown [OF s(2,3,4)] s show ?thesis by auto
qed

subsection \<open>Loading the examples\<close>






lemma read_score_missing:
  "objects gr ex_uri (HEDWIG E @ ''score'') = [] \<Longrightarrow>
   objects gr ex_uri (HEDWIG E @ ''class_label'') = [] \<Longrightarrow>
   read_score E gr ex_uri cvs = Inl IndexError"
  by (simp add: read_score_def)

lemma load_examples_missing_score:
  "ex_uri \<in> set uris \<Longrightarrow>
   objects (g self) ex_uri (HEDWIG E @ ''score'') = [] \<Longrightarrow>
   objects (g self) ex_uri (HEDWIG E @ ''class_label'') = [] \<Longrightarrow>
   \<exists>e. load_examples E self i uris exs = Inl e"
proof (induction E self i uris exs rule: load_examples.induct)
  case (1 E self i exs)
  then show ?case by simp
next
  case (2 E self i u rest exs)
  show ?case
  proof (cases "u = ex_uri")
    case True
    then show ?thesis using "2.prems"
      by (auto simp: read_score_missing split: sum.splits prod.splits)
  next
    case False
    then have "ex_uri \<in> set rest" using "2.prems" by simp
    then show ?thesis using "2.IH" "2.prems"(2,3)
      by (auto split: sum.splits prod.splits)
  qed
qed

text \<open>
  C9. When some example of the graph has neither a score nor a class label, the
  constructor raises and returns no object.
\<close>

theorem missing_score_and_label_error:
  "ex_uri \<in> set (subjects (triplets @ EXAMPLE_SCHEMA E) RDF_type (HEDWIG E @ ''Example'')) \<Longrightarrow>
   objects (triplets @ EXAMPLE_SCHEMA E) ex_uri (HEDWIG E @ ''score'') = [] \<Longrightarrow>
   objects (triplets @ EXAMPLE_SCHEMA E) ex_uri (HEDWIG E @ ''class_label'') = [] \<Longrightarrow>
   \<exists>e. init E triplets namespaces instances_as_leaves = Inl e"
proof -
  assume a: "ex_uri \<in> set (subjects (triplets @ EXAMPLE_SCHEMA E) RDF_type (HEDWIG E @ ''Example''))"
    and b: "objects (triplets @ EXAMPLE_SCHEMA E) ex_uri (HEDWIG E @ ''score'') = []"
    and c: "objects (triplets @ EXAMPLE_SCHEMA E) ex_uri (HEDWIG E @ ''class_label'') = []"
  let ?s = "(new_kb (triplets @ EXAMPLE_SCHEMA E) namespaces)
              \<lparr>examples_uris := subjects (triplets @ EXAMPLE_SCHEMA E) RDF_type (HEDWIG E @ ''Example'')\<rparr>"
  have gs: "g ?s = triplets @ EXAMPLE_SCHEMA E" by (simp add: new_kb_def)
  have "\<exists>e. load_examples E ?s 0 (examples_uris ?s) [] = Inl e"
    by (rule load_examples_missing_score [where ex_uri = ex_uri]) (use a b c gs in simp_all)
  then have "\<exists>e. load E triplets namespaces = Inl e"
    by (auto simp: load_def Let_def new_kb_def)
  then show ?thesis by (auto simp: init_def)
qed

theorem missing_score_and_label_error_witness:
  "''e1'' \<in> set (subjects (graph_unscored @ EXAMPLE_SCHEMA env0) RDF_type (HEDWIG env0 @ ''Example'')) \<and>
   objects (graph_unscored @ EXAMPLE_SCHEMA env0) ''e1'' (HEDWIG env0 @ ''score'') = [] \<and>
   objects (graph_unscored @ EXAMPLE_SCHEMA env0) ''e1'' (HEDWIG env0 @ ''class_label'') = [] \<and>
   init env0 graph_unscored [] True = Inl IndexError"
proof -
  have a: "''e1'' \<in> set (subjects (graph_unscored @ EXAMPLE_SCHEMA env0) RDF_type (HEDWIG env0 @ ''Example''))"
    by code_simp
  have b: "objects (graph_unscored @ EXAMPLE_SCHEMA env0) ''e1'' (HEDWIG env0 @ ''score'') = []"
    by code_simp
  have c: "objects (graph_unscored @ EXAMPLE_SCHEMA env0) ''e1'' (HEDWIG env0 @ ''class_label'') = []"
    by code_simp
  have d: "init env0 graph_unscored [] True = Inl IndexError"
    by code_simp
  from missing_score_and_label_error [OF a b c, of "[]" True] a b c d show ?thesis by simp
qed

subsection \<open>The steps of the constructor\<close>

lemma init_Inr:
  assumes "init E triplets namespaces leaves = Inr self"
  obtains self1 self2 self3 self4 where
    "load E triplets namespaces = Inr self1"
    "build_hierarchy E leaves self1 = Inr self2"
    "run_closure E (add_dummy_root self2) = Inr self3"
    "index_binary self3 = Inr self4"
    "statistics E self4 = Inr self"
  using assms by (auto simp: init_def split: sum.splits)

subsection \<open>Statistics\<close>

lemma sum_snd_update:
  "distinct (map fst d) \<Longrightarrow>
   sum_list (map snd (AList.update k (dd_val 0 d k + 1) d)) = sum_list (map snd d) + (1::nat)"
proof (induction d)
  case Nil
  then show ?case by (simp add: dd_val_def)
next
  case (Cons p d)
  show ?case
  proof (cases "fst p = k")
    case True
    then show ?thesis by (cases p) (simp add: dd_val_def)
  next
    case False
    then have "dd_val 0 (p # d) k = dd_val 0 d k" by (cases p) (simp add: dd_val_def)
    then show ?thesis using False Cons by simp
  qed
qed

lemma count_fold:
  fixes d :: "(pyval \<times> nat) list"
  assumes "distinct (map fst d)"
  defines "f \<equiv> (\<lambda>ex d. AList.update (score ex) (dd_val 0 d (score ex) + 1) d)"
  shows "distinct (map fst (fold f exs d)) \<and>
         sum_list (map snd (fold f exs d)) = sum_list (map snd d) + length exs \<and>
         (\<forall>l. dd_val 0 (fold f exs d) l = dd_val 0 d l + length (filter (\<lambda>ex. score ex = l) exs))"
  using assms(1)
proof (induction exs arbitrary: d)
  case Nil
  then show ?case by simp
next
  case (Cons ex exs)
  have d': "distinct (map fst (f ex d))"
    using Cons.prems by (simp add: f_def distinct_update)
  have s: "sum_list (map snd (f ex d)) = sum_list (map snd d) + 1"
    using sum_snd_update [OF Cons.prems, of "score ex"] by (simp add: f_def)
  have v: "\<And>l. dd_val 0 (f ex d) l = dd_val 0 d l + (if score ex = l then 1 else 0)"
    by (auto simp: f_def dd_val_update)
  from Cons.IH [OF d'] show ?case
    by (auto simp: s v)
qed

lemma count_scores_spec:
  "distinct (keys (count_scores exs)) \<and>
   sum_list (map snd (count_scores exs)) = length exs \<and>
   (\<forall>l. dd_val 0 (count_scores exs) l = length (filter (\<lambda>ex. score ex = l) exs))"
  using count_fold [of "[]" exs] by (simp add: count_scores_def keys_def dd_val_def)

text \<open>
  C7. When the target is a class label, the constructor leaves a distribution that
  gives every label the number of examples with that label, and the counts of its
  entries, one entry per label, add up to the number of examples.
\<close>

theorem labeled_distribution:
  "init E triplets namespaces instances_as_leaves = Inr self \<Longrightarrow>
   target_type self = ClassLabeled \<Longrightarrow>
   \<exists>dist. distribution self = Some dist \<and> distinct (keys dist) \<and>
     (\<forall>l. dd_val 0 dist l = length (filter (\<lambda>ex. score ex = l) (examples self))) \<and>
     sum_list (map snd dist) = n_examples self"
proof -
  assume i: "init E triplets namespaces instances_as_leaves = Inr self"
    and t: "target_type self = ClassLabeled"
  from i obtain self4 where st: "statistics E self4 = Inr self" by (rule init_Inr)
  have "target_type self4 \<noteq> Ranked"
  proof
    assume "target_type self4 = Ranked"
    then have "target_type self = Ranked"
      using st by (auto simp: statistics_def split: sum.splits)
    then show False using t by simp
  qed
  then have "self = self4\<lparr>distribution := Some (count_scores (examples self4))\<rparr>"
    using st by (simp add: statistics_def)
  then have "distribution self = Some (count_scores (examples self))"
    by simp
  then show ?thesis using count_scores_spec [of "examples self"]
    by (simp add: n_examples_def)
qed

theorem labeled_distribution_witness:
  "case init env0 graph_linked [] True of
     Inl e \<Rightarrow> False
   | Inr self \<Rightarrow>
       target_type self = ClassLabeled \<and> n_examples self = 3 \<and>
       distribution self = Some [(Str ''pos'', 2), (Str ''neg'', 1)] \<and>
       (\<exists>dist. distribution self = Some dist \<and> sum_list (map snd dist) = 3)"
proof -
  have ev: "case init env0 graph_linked [] True of
     Inl e \<Rightarrow> False
   | Inr self \<Rightarrow>
       target_type self = ClassLabeled \<and> n_examples self = 3 \<and>
       distribution self = Some [(Str ''pos'', 2), (Str ''neg'', 1)]"
    by code_simp
  then obtain self where s: "init env0 graph_linked [] True = Inr self"
    "target_type self = ClassLabeled" "n_examples self = 3"
    "distribution self = Some [(Str ''pos'', 2), (Str ''neg'', 1)]"
    by (auto split: sum.splits)
  from labeled_distribution [OF s(1,2)] s show ?thesis by auto
qed

subsection \<open>The members of the binary predicates\<close>

lemma link_val:
  "dd_val [] (link d a b) a' = (if a' = a then dd_val [] d a @ [b] else dd_val [] d a')"
  by (simp add: link_def has_key_def dd_val_update dd_val_absent)

lemma link_keys: "set (keys (link d a b)) = insert a (set (keys d))"
  by (simp add: link_def keys_def dom_update)

lemma dd_link_val:
  "dd_val [] (dd_link bm p a b) p' =
     (if p' = p then link (dd_val [] bm p) a b else dd_val [] bm p')"
  by (simp add: dd_link_def dd_val_update dd_val_touch)

lemma forward_link:
  "forward (self\<lparr>binary_members := dd_link (binary_members self) p a b,
                 reverse_binary_members := dd_link (reverse_binary_members self) p b a\<rparr>) p' i =
     (if p' = p \<and> i = a then forward self p a @ [b] else forward self p' i)"
  by (simp add: forward_def dd_link_val link_val)

lemma reverse_link:
  "reverse (self\<lparr>binary_members := dd_link (binary_members self) p a b,
                 reverse_binary_members := dd_link (reverse_binary_members self) p b a\<rparr>) p' j =
     (if p' = p \<and> j = b then reverse self p b @ [a] else reverse self p' j)"
  by (simp add: reverse_def dd_link_val link_val)

lemma add_pairs_inverse:
  "add_pairs self p ps = Inr self' \<Longrightarrow>
   (\<forall>b i j. (j \<in> set (forward self b i)) = (i \<in> set (reverse self b j))) \<Longrightarrow>
   (\<forall>b i j. (j \<in> set (forward self' b i)) = (i \<in> set (reverse self' b j)))"
proof (induction self p ps rule: add_pairs.induct)
  case (1 self p)
  then show ?case by simp
next
  case (2 self p s ob rest)
  from "2.prems"(1) obtain el1 el2 where
    e: "map_of (uri_to_idx self) s = Some el1" "map_of (uri_to_idx self) ob = Some el2"
    by (auto split: option.splits)
  let ?s = "self\<lparr>binary_members := dd_link (binary_members self) p el1 el2,
                  reverse_binary_members := dd_link (reverse_binary_members self) p el2 el1\<rparr>"
  have r: "add_pairs ?s p rest = Inr self'" using "2.prems"(1) e by simp
  have "\<forall>b i j. (j \<in> set (forward ?s b i)) = (i \<in> set (reverse ?s b j))"
    using "2.prems"(2) by (auto simp: forward_link reverse_link)
  with "2.IH" [OF e r] show ?case by blast
qed

lemma calc_binary_members_inverse:
  "calc_binary_members self ps = Inr self' \<Longrightarrow>
   (\<forall>b i j. (j \<in> set (forward self b i)) = (i \<in> set (reverse self b j))) \<Longrightarrow>
   (\<forall>b i j. (j \<in> set (forward self' b i)) = (i \<in> set (reverse self' b j)))"
proof (induction self ps rule: calc_binary_members.induct)
  case (1 self)
  then show ?case by simp
next
  case (2 self pred rest)
  from "2.prems"(1) obtain s1 where
    s1: "add_pairs self pred (subject_objects (g self) pred) = Inr s1"
        "calc_binary_members s1 rest = Inr self'"
    by (auto split: sum.splits)
  from add_pairs_inverse [OF s1(1) "2.prems"(2)] "2.IH" [OF s1] show ?case by blast
qed

subsection \<open>What the steps leave alone\<close>

lemma same_input_refl [simp]: "same_input s s"
  by (simp add: same_input_def)

lemma same_hierarchy_refl [simp]: "same_hierarchy s s"
  by (simp add: same_hierarchy_def)

lemma same_binary_refl [simp]: "same_binary s s"
  by (simp add: same_binary_def)

lemma same_input_trans: "same_input s t \<Longrightarrow> same_input t u \<Longrightarrow> same_input s u"
  by (simp add: same_input_def)

lemma same_hierarchy_trans: "same_hierarchy s t \<Longrightarrow> same_hierarchy t u \<Longrightarrow> same_hierarchy s u"
  by (simp add: same_hierarchy_def)

lemma same_binary_trans: "same_binary s t \<Longrightarrow> same_binary t u \<Longrightarrow> same_binary s u"
  by (simp add: same_binary_def)

lemma add_pairs_frame:
  "add_pairs self p ps = Inr self' \<Longrightarrow> same_input self self' \<and> same_hierarchy self self'"
proof (induction self p ps rule: add_pairs.induct)
  case (1 self p)
  then show ?case by simp
next
  case (2 self p s ob rest)
  from "2.prems"(1) obtain el1 el2 where
    e: "map_of (uri_to_idx self) s = Some el1" "map_of (uri_to_idx self) ob = Some el2"
    by (auto split: option.splits)
  let ?s = "self\<lparr>binary_members := dd_link (binary_members self) p el1 el2,
                  reverse_binary_members := dd_link (reverse_binary_members self) p el2 el1\<rparr>"
  have r: "add_pairs ?s p rest = Inr self'" using "2.prems"(1) e by simp
  from "2.IH" [OF e r] show ?case by (simp add: same_input_def same_hierarchy_def)
qed

lemma calc_binary_members_frame:
  "calc_binary_members self ps = Inr self' \<Longrightarrow> same_input self self' \<and> same_hierarchy self self'"
proof (induction self ps rule: calc_binary_members.induct)
  case (1 self)
  then show ?case by simp
next
  case (2 self pred rest)
  from "2.prems"(1) obtain s1 where
    s1: "add_pairs self pred (subject_objects (g self) pred) = Inr s1"
        "calc_binary_members s1 rest = Inr self'"
    by (auto split: sum.splits)
  from add_pairs_frame [OF s1(1)] "2.IH" [OF s1] show ?case
    by (blast intro: same_input_trans same_hierarchy_trans)
qed

lemma calc_binary_domains_step:
  assumes "calc_binary_domains self (pred # rest) = Inr self'"
  obtains dbits rbits s2 where
    "indices_to_bits self (keys (dd_val [] (binary_members self) pred)) = Inr dbits"
    "indices_to_bits self (keys (dd_val [] (reverse_binary_members self) pred)) = Inr rbits"
    "same_input self s2" "same_hierarchy self s2" "same_binary self s2"
    "binary_domains s2 = AList.update pred (dbits, rbits) (binary_domains self)"
    "calc_binary_domains s2 rest = Inr self'"
proof -
  let ?s1 = "self\<lparr>binary_members := dd_touch [] (binary_members self) pred\<rparr>"
  from assms obtain dbits where
    d: "indices_to_bits ?s1 (keys (dd_val [] (binary_members self) pred)) = Inr dbits"
    by (auto simp: Let_def split: sum.splits)
  let ?s2 = "?s1\<lparr>reverse_binary_members := dd_touch [] (reverse_binary_members ?s1) pred\<rparr>"
  from assms d obtain rbits where
    r: "indices_to_bits ?s2 (keys (dd_val [] (reverse_binary_members ?s1) pred)) = Inr rbits"
    by (auto simp: Let_def split: sum.splits)
  let ?s3 = "?s2\<lparr>binary_domains := AList.update pred (dbits, rbits) (binary_domains ?s2)\<rparr>"
  have c: "calc_binary_domains ?s3 rest = Inr self'"
    using assms d r by (simp add: Let_def)
  have d': "indices_to_bits self (keys (dd_val [] (binary_members self) pred)) = Inr dbits"
    using d by (simp add: indices_to_bits_def get_empty_domain_def n_examples_def)
  have r': "indices_to_bits self (keys (dd_val [] (reverse_binary_members self) pred)) = Inr rbits"
    using r by (simp add: indices_to_bits_def get_empty_domain_def n_examples_def)
  show ?thesis
    by (rule that [OF d' r' _ _ _ _ c])
       (simp_all add: same_input_def same_hierarchy_def same_binary_def dd_val_touch)
qed

lemma calc_binary_domains_frame:
  "calc_binary_domains self ps = Inr self' \<Longrightarrow>
   same_input self self' \<and> same_hierarchy self self' \<and> same_binary self self'"
proof (induction ps arbitrary: self)
  case Nil
  then show ?case by simp
next
  case (Cons pred rest)
  from Cons.prems obtain s2 where
    s2: "same_input self s2" "same_hierarchy self s2" "same_binary self s2"
        "calc_binary_domains s2 rest = Inr self'"
    by (rule calc_binary_domains_step)
  from Cons.IH [OF s2(4)] s2(1,2,3) show ?case
    by (blast intro: same_input_trans same_hierarchy_trans same_binary_trans)
qed

lemma calc_bit_members_frame:
  "calc_bit_members self ps = Inr self' \<Longrightarrow>
   same_input self self' \<and> same_hierarchy self self' \<and> same_binary self self' \<and>
   binary_domains self' = binary_domains self"
proof (induction self ps rule: calc_bit_members.induct)
  case (1 self)
  then show ?case by simp
next
  case (2 self pred rest)
  from "2.prems" obtain ms bits where
    m: "map_of (members self) pred = Some ms" "indices_to_bits self ms = Inr bits"
       "calc_bit_members (self\<lparr>bit_members := AList.update pred bits (bit_members self)\<rparr>) rest
          = Inr self'"
    by (auto split: option.splits sum.splits)
  from "2.IH" [OF m] show ?case
    by (simp add: same_input_def same_hierarchy_def same_binary_def)
qed

lemma calc_bit_binary_members_frame:
  "calc_bit_binary_members self ps = Inr self' \<Longrightarrow>
   same_input self self' \<and> same_hierarchy self self' \<and> same_binary self self' \<and>
   binary_domains self' = binary_domains self"
proof (induction ps arbitrary: self)
  case Nil
  then show ?case by simp
next
  case (Cons pred rest)
  let ?fwd = "dd_val [] (binary_members self) pred"
  from Cons.prems obtain bbm where
    b: "store_bit_lists self ?fwd pred (keys ?fwd) (bit_binary_members self) = Inr bbm"
    by (auto simp: Let_def split: sum.splits)
  let ?rev = "dd_val [] (reverse_binary_members self) pred"
  let ?s1 = "self\<lparr>bit_binary_members := bbm,
                   reverse_binary_members := dd_touch [] (reverse_binary_members self) pred\<rparr>"
  from Cons.prems b obtain rbbm where
    r: "store_bit_lists ?s1 ?rev pred (keys ?rev) (reverse_bit_binary_members ?s1) = Inr rbbm"
    by (auto simp: Let_def split: sum.splits)
  have c: "calc_bit_binary_members (?s1\<lparr>reverse_bit_binary_members := rbbm\<rparr>) rest = Inr self'"
    using Cons.prems b r by (simp add: Let_def)
  from Cons.IH [OF c] show ?case
    by (simp add: same_input_def same_hierarchy_def same_binary_def dd_val_touch)
qed

lemma statistics_frame:
  "statistics E self = Inr self' \<Longrightarrow>
   same_input self self' \<and> same_hierarchy self self' \<and>
   binary_members self' = binary_members self \<and>
   reverse_binary_members self' = reverse_binary_members self \<and>
   binary_domains self' = binary_domains self"
  by (auto simp: statistics_def same_input_def same_hierarchy_def split: if_splits sum.splits)

lemma forward_same_binary: "same_binary s s' \<Longrightarrow> forward s' b i = forward s b i"
  by (simp add: same_binary_def forward_def)

lemma reverse_same_binary: "same_binary s s' \<Longrightarrow> reverse s' b j = reverse s b j"
  by (simp add: same_binary_def reverse_def)

lemma index_binary_steps:
  assumes "index_binary self = Inr self'"
  obtains s1 s2 s3 where
    "calc_binary_members (self\<lparr>binary_members := [], reverse_binary_members := []\<rparr>)
       (binary_predicates self) = Inr s1"
    "calc_binary_domains (s1\<lparr>binary_domains := []\<rparr>) (binary_predicates s1) = Inr s2"
    "calc_bit_members (s2\<lparr>bit_members := []\<rparr>) (keys (members s2)) = Inr s3"
    "calc_bit_binary_members (s3\<lparr>bit_binary_members := [], reverse_bit_binary_members := []\<rparr>)
       (keys (binary_members s3)) = Inr self'"
  using assms by (auto simp: index_binary_def split: sum.splits)

lemma index_binary_frame:
  assumes "index_binary self = Inr self'"
  shows "same_input self self' \<and> same_hierarchy self self'"
proof -
  from assms obtain s1 s2 s3 where
    a: "calc_binary_members (self\<lparr>binary_members := [], reverse_binary_members := []\<rparr>)
       (binary_predicates self) = Inr s1"
    and b: "calc_binary_domains (s1\<lparr>binary_domains := []\<rparr>) (binary_predicates s1) = Inr s2"
    and c: "calc_bit_members (s2\<lparr>bit_members := []\<rparr>) (keys (members s2)) = Inr s3"
    and d: "calc_bit_binary_members (s3\<lparr>bit_binary_members := [], reverse_bit_binary_members := []\<rparr>)
       (keys (binary_members s3)) = Inr self'"
    by (rule index_binary_steps)
  from calc_binary_members_frame [OF a] have 1: "same_input self s1" "same_hierarchy self s1"
    by (simp_all add: same_input_def same_hierarchy_def)
  from calc_binary_domains_frame [OF b] have 2: "same_input s1 s2" "same_hierarchy s1 s2"
    by (simp_all add: same_input_def same_hierarchy_def)
  from calc_bit_members_frame [OF c] have 3: "same_input s2 s3" "same_hierarchy s2 s3"
    by (simp_all add: same_input_def same_hierarchy_def)
  from calc_bit_binary_members_frame [OF d] have 4: "same_input s3 self'" "same_hierarchy s3 self'"
    by (simp_all add: same_input_def same_hierarchy_def)
  from 1 2 3 4 show ?thesis
    by (blast intro: same_input_trans same_hierarchy_trans)
qed

lemma index_binary_inverse:
  assumes "index_binary self = Inr self'"
  shows "(j \<in> set (forward self' b i)) = (i \<in> set (reverse self' b j))"
proof -
  from assms obtain s1 s2 s3 where
    a: "calc_binary_members (self\<lparr>binary_members := [], reverse_binary_members := []\<rparr>)
       (binary_predicates self) = Inr s1"
    and b: "calc_binary_domains (s1\<lparr>binary_domains := []\<rparr>) (binary_predicates s1) = Inr s2"
    and c: "calc_bit_members (s2\<lparr>bit_members := []\<rparr>) (keys (members s2)) = Inr s3"
    and d: "calc_bit_binary_members (s3\<lparr>bit_binary_members := [], reverse_bit_binary_members := []\<rparr>)
       (keys (binary_members s3)) = Inr self'"
    by (rule index_binary_steps)
  let ?s0 = "self\<lparr>binary_members := [], reverse_binary_members := []\<rparr>"
  have "\<forall>b i j. (j \<in> set (forward ?s0 b i)) = (i \<in> set (reverse ?s0 b j))"
    by (simp add: forward_def reverse_def dd_val_def)
  from calc_binary_members_inverse [OF a this]
  have 1: "(j \<in> set (forward s1 b i)) = (i \<in> set (reverse s1 b j))" by blast
  from calc_binary_domains_frame [OF b] have "same_binary s1 s2"
    by (simp add: same_binary_def)
  moreover from calc_bit_members_frame [OF c] have "same_binary s2 s3"
    by (simp add: same_binary_def)
  moreover from calc_bit_binary_members_frame [OF d] have "same_binary s3 self'"
    by (simp add: same_binary_def)
  ultimately have "same_binary s1 self'"
    by (blast intro: same_binary_trans)
  then show ?thesis
    using 1 by (simp add: forward_same_binary reverse_same_binary)
qed

text \<open>
  C3. In a constructed object the two adjacency dictionaries of every binary predicate
  are inverse to each other: \<open>j\<close> is in \<open>binary_members[b][i]\<close> exactly when \<open>i\<close> is in
  \<open>reverse_binary_members[b][j]\<close>.
\<close>

theorem forward_reverse_inverse:
  "init E triplets namespaces instances_as_leaves = Inr self \<Longrightarrow>
   (j \<in> set (forward self b i)) = (i \<in> set (reverse self b j))"
proof -
  assume "init E triplets namespaces instances_as_leaves = Inr self"
  then obtain self3 self4 where
    ib: "index_binary self3 = Inr self4" and st: "statistics E self4 = Inr self"
    by (rule init_Inr)
  from statistics_frame [OF st] have
    "forward self b i = forward self4 b i" "reverse self b j = reverse self4 b j"
    by (simp_all add: forward_def reverse_def)
  then show ?thesis using index_binary_inverse [OF ib] by simp
qed

theorem forward_reverse_inverse_witness:
  "case init env0 graph_linked [] True of
     Inl e \<Rightarrow> False
   | Inr self \<Rightarrow>
       forward self ''linkedTo'' 0 = [1] \<and> reverse self ''linkedTo'' 1 = [0] \<and>
       forward self ''linkedTo'' 1 = [2] \<and> reverse self ''linkedTo'' 2 = [1] \<and>
       ((1 \<in> set (forward self ''linkedTo'' 0)) = (0 \<in> set (reverse self ''linkedTo'' 1)))"
proof -
  have ev: "case init env0 graph_linked [] True of
     Inl e \<Rightarrow> False
   | Inr self \<Rightarrow>
       forward self ''linkedTo'' 0 = [1] \<and> reverse self ''linkedTo'' 1 = [0] \<and>
       forward self ''linkedTo'' 1 = [2] \<and> reverse self ''linkedTo'' 2 = [1]"
    by code_simp
  then obtain self where s: "init env0 graph_linked [] True = Inr self"
    "forward self ''linkedTo'' 0 = [1]" "reverse self ''linkedTo'' 1 = [0]"
    "forward self ''linkedTo'' 1 = [2]" "reverse self ''linkedTo'' 2 = [1]"
    by (auto split: sum.splits)
  from forward_reverse_inverse [OF s(1), of 1 "''linkedTo''" 0] s show ?thesis by simp
qed

subsection \<open>The traversal of the hierarchy\<close>

lemma set_set_add [simp]: "set (set_add x xs) = insert x (set xs)"
  by (auto simp: set_add_def)

lemma set_set_update [simp]: "set (set_update xs ys) = set xs \<union> set ys"
  unfolding set_update_def by (induction ys arbitrary: xs) auto

lemma same_leaves_refl [simp]: "same_leaves s s"
  by (simp add: same_leaves_def)

lemma same_leaves_trans: "same_leaves s t \<Longrightarrow> same_leaves t u \<Longrightarrow> same_leaves s u"
  by (simp add: same_leaves_def same_input_def)

lemma subclass_rel_same: "same_leaves s s' \<Longrightarrow> subclass_rel s' = subclass_rel s"
  by (simp add: same_leaves_def subclass_rel_def)

lemma leaf_members_same: "same_leaves s s' \<Longrightarrow> leaf_members s' p = leaf_members s p"
proof -
  assume a: "same_leaves s s'"
  then have "\<And>c. dd_val [] (super_class_of s') c = [] \<Longrightarrow>
    dd_val [] (members s') c = dd_val [] (members s) c"
    by (simp add: same_leaves_def)
  moreover have "\<And>c. dd_val [] (super_class_of s') c = dd_val [] (super_class_of s) c"
    using a by (simp add: same_leaves_def)
  ultimately show ?thesis
    unfolding leaf_members_def subclass_rel_same [OF a]
    by (intro arg_cong [where f = Union] Collect_cong) (metis (no_types))
qed

lemma leaf_members_leaf:
  assumes "dd_val [] (super_class_of s) p = []"
  shows "leaf_members s p = set (dd_val [] (members s) p)"
proof -
  have "c = p" if "(p, c) \<in> (subclass_rel s)\<^sup>*" for c
    using that assms by (auto elim: converse_rtranclE simp: subclass_rel_def)
  then show ?thesis
    using assms by (auto simp: leaf_members_def)
qed

lemma leaf_members_internal:
  assumes "dd_val [] (super_class_of s) p \<noteq> []"
  shows "leaf_members s p = (\<Union>c \<in> set (dd_val [] (super_class_of s) p). leaf_members s c)"
proof (rule set_eqI)
  fix x
  show "x \<in> leaf_members s p \<longleftrightarrow>
        x \<in> (\<Union>c \<in> set (dd_val [] (super_class_of s) p). leaf_members s c)"
  proof
    assume "x \<in> leaf_members s p"
    then obtain c0 where c0: "(p, c0) \<in> (subclass_rel s)\<^sup>*"
      "dd_val [] (super_class_of s) c0 = []" "x \<in> set (dd_val [] (members s) c0)"
      by (auto simp: leaf_members_def)
    from c0(1) show "x \<in> (\<Union>c \<in> set (dd_val [] (super_class_of s) p). leaf_members s c)"
    proof (cases rule: converse_rtranclE)
      case base
      then show ?thesis using c0(2) assms by simp
    next
      case (step c)
      then have "c \<in> set (dd_val [] (super_class_of s) p)" by (simp add: subclass_rel_def)
      moreover have "x \<in> leaf_members s c"
        using step(2) c0(2,3) by (auto simp: leaf_members_def)
      ultimately show ?thesis by blast
    qed
  next
    assume "x \<in> (\<Union>c \<in> set (dd_val [] (super_class_of s) p). leaf_members s c)"
    then obtain c c0 where c: "c \<in> set (dd_val [] (super_class_of s) p)"
      "(c, c0) \<in> (subclass_rel s)\<^sup>*"
      "dd_val [] (super_class_of s) c0 = []" "x \<in> set (dd_val [] (members s) c0)"
      by (auto simp: leaf_members_def)
    from c(1) have "(p, c) \<in> subclass_rel s" by (simp add: subclass_rel_def)
    then have "(p, c0) \<in> (subclass_rel s)\<^sup>*" using c(2) by (rule converse_rtrancl_into_rtrancl)
    with c(3,4) show "x \<in> leaf_members s p" by (auto simp: leaf_members_def)
  qed
qed

lemma closure_children_post:
  assumes P: "\<And>child lvl s r s'. closure d child lvl s = Inr (r, s') \<Longrightarrow>
    same_leaves s s' \<and> set r = leaf_members s child \<and> dd_val [] (members s') child = r"
  shows "closure_children d pred lvl cs mems0 s = Inr (mems, s') \<Longrightarrow>
    same_leaves s s' \<and> set mems = set mems0 \<union> (\<Union>c \<in> set cs. leaf_members s c)"
proof (induction cs arbitrary: mems0 s)
  case Nil
  then show ?case by simp
next
  case (Cons child rest)
  let ?s1 = "s\<lparr>sub_class_of_closure := dd_touch [] (sub_class_of_closure s) pred\<rparr>"
  let ?s2 = "?s1\<lparr>sub_class_of_closure :=
                    dd_update (sub_class_of_closure ?s1) child
                      (dd_val [] (sub_class_of_closure s) pred)\<rparr>"
  from Cons.prems obtain r s3 where
    c: "closure d child (lvl + 1) ?s2 = Inr (r, s3)"
    and k: "closure_children d pred lvl rest (set_update mems0 r) s3 = Inr (mems, s')"
    by (auto simp: Let_def split: sum.splits)
  have s2: "same_leaves s ?s2"
    by (simp add: same_leaves_def same_input_def)
  from P [OF c] have p: "same_leaves ?s2 s3" "set r = leaf_members ?s2 child" by simp_all
  have pr: "set r = leaf_members s child"
    using p(2) unfolding leaf_members_same [OF s2] .
  have s3: "same_leaves s s3" using s2 p(1) by (rule same_leaves_trans)
  from Cons.IH [OF k] have q: "same_leaves s3 s'"
    "set mems = set (set_update mems0 r) \<union> (\<Union>c \<in> set rest. leaf_members s3 c)" by simp_all
  have "same_leaves s s'" using s3 q(1) by (rule same_leaves_trans)
  moreover have "set mems = set mems0 \<union> (\<Union>c \<in> set (child # rest). leaf_members s c)"
    using q(2) pr by (auto simp: leaf_members_same [OF s3])
  ultimately show ?case by simp
qed

lemma closure_post:
  "closure d pred lvl s = Inr (mems, s') \<Longrightarrow>
   same_leaves s s' \<and> set mems = leaf_members s pred \<and> dd_val [] (members s') pred = mems"
proof (induction d arbitrary: pred lvl s mems s')
  case 0
  then show ?case by simp
next
  case (Suc d)
  let ?children = "dd_val [] (super_class_of s) pred"
  let ?s1 = "s\<lparr>super_class_of := dd_touch [] (super_class_of s) pred\<rparr>"
  let ?s2 = "?s1\<lparr>levels := dd_add (levels ?s1) lvl pred\<rparr>"
  have s2: "same_leaves s ?s2"
    by (simp add: same_leaves_def same_input_def dd_val_touch)
  show ?case
  proof (cases "?children = []")
    case True
    then have r: "mems = dd_val [] (members s) pred"
      "s' = ?s2\<lparr>members := dd_touch [] (members ?s2) pred\<rparr>"
      using Suc.prems by (simp_all add: Let_def)
    have "same_leaves s s'"
      unfolding r by (simp add: same_leaves_def same_input_def dd_val_touch)
    moreover have "set mems = leaf_members s pred"
      using True r(1) by (simp add: leaf_members_leaf)
    moreover have "dd_val [] (members s') pred = mems"
      unfolding r by (simp add: dd_val_touch)
    ultimately show ?thesis by simp
  next
    case False
    from Suc.prems False obtain s3 where
      k: "closure_children d pred lvl ?children [] ?s2 = Inr (mems, s3)"
      and r: "s' = s3\<lparr>members := AList.update pred mems (members s3)\<rparr>"
      by (auto simp: Let_def split: sum.splits)
    from closure_children_post [OF Suc.IH k] have
      q: "same_leaves ?s2 s3" "set mems = (\<Union>c \<in> set ?children. leaf_members ?s2 c)"
      by simp_all
    have qr: "set mems = (\<Union>c \<in> set ?children. leaf_members s c)"
      using q(2) unfolding leaf_members_same [OF s2] .
    have s3: "same_leaves s s3" using s2 q(1) by (rule same_leaves_trans)
    have "same_leaves s3 s'"
      using False s3 unfolding r
      by (auto simp: same_leaves_def same_input_def dd_val_update)
    then have "same_leaves s s'" using s3 by (blast intro: same_leaves_trans)
    moreover have "set mems = leaf_members s pred"
      using qr False by (simp add: leaf_members_internal)
    moreover have "dd_val [] (members s') pred = mems"
      unfolding r by (simp add: dd_val_update)
    ultimately show ?thesis by simp
  qed
qed

subsection \<open>Members of the root\<close>

lemma run_closure_post:
  assumes "run_closure E self = Inr self'"
  shows "same_input self self' \<and> binary_predicates self' = binary_predicates self \<and>
         dummy_root self' = dummy_root self \<and>
         set (dd_val [] (members self') (dummy_root self')) = leaf_members self' (dummy_root self')"
proof -
  let ?s0 = "self\<lparr>levels := []\<rparr>"
  from assms obtain mems where
    c: "closure (recursion_limit E) (dummy_root self) 0 ?s0 = Inr (mems, self')"
    by (auto simp: run_closure_def split: sum.splits)
  from closure_post [OF c] have
    p: "same_leaves ?s0 self'" "set mems = leaf_members ?s0 (dummy_root self)"
       "dd_val [] (members self') (dummy_root self) = mems"
    by simp_all
  have d: "dummy_root self' = dummy_root self"
    using p(1) by (simp add: same_leaves_def)
  have "leaf_members self' (dummy_root self) = leaf_members ?s0 (dummy_root self)"
    by (rule leaf_members_same [OF p(1)])
  then have "set (dd_val [] (members self') (dummy_root self')) = leaf_members self' (dummy_root self')"
    using p(2,3) d by simp
  then show ?thesis
    using p(1) d by (simp add: same_leaves_def same_input_def)
qed

lemma leaf_members_hierarchy:
  "same_hierarchy s s' \<Longrightarrow> leaf_members s' p = leaf_members s p"
  by (simp add: same_hierarchy_def leaf_members_def subclass_rel_def)

lemma init_closure_dummy_root: "dummy_root (init_closure self ps) = dummy_root self"
  by (induction self ps rule: init_closure.induct) simp_all

lemma add_roots_dummy_root: "dummy_root (add_roots self rs) = dummy_root self"
  by (induction self rs rule: add_roots.induct) (simp_all add: add_sub_class_def Let_def)

lemma add_dummy_root_root: "dummy_root (add_dummy_root self) = ''root''"
  by (simp add: add_dummy_root_def Let_def init_closure_dummy_root add_roots_dummy_root
      split: prod.splits)

subsection \<open>Super classes of a leaf\<close>

text \<open>
  C1 at a leaf. In the hierarchy \<open>A \<subseteq> B\<close>, where \<open>B\<close> gets the dummy root as its super
  class, the closure of \<open>B\<close> is the root alone, and the closure of the leaf \<open>A\<close> is the root
  alone too: its own super class \<open>B\<close> is missing.
\<close>

theorem leaf_closure_misses_parent:
  "case init env0 graph_annotated [] True of
     Inl e \<Rightarrow> False
   | Inr self \<Rightarrow>
       dd_val [] (sub_class_of self) ''A'' = [''B''] \<and>
       dd_val [] (sub_class_of self) ''B'' = [''root''] \<and>
       fst (super_classes self ''B'') = [''root''] \<and>
       fst (super_classes self ''A'') = [''root''] \<and>
       ''B'' \<notin> set (fst (super_classes self ''A''))"
  by code_simp

subsection \<open>Domains and ranges of the binary predicates\<close>

lemma set_bit_at_Inr:
  "set_bit_at bits idx = Inr bits' \<Longrightarrow> 0 \<le> idx \<Longrightarrow>
   idx < int (length bits) \<and> length bits' = length bits"
  by (auto simp: set_bit_at_def Let_def split: if_splits)

lemma set_bits_Inr_range:
  "set_bits bits S = Inr bits' \<Longrightarrow> \<forall>k \<in> set S. 0 \<le> k \<Longrightarrow> set S \<subseteq> {0..<int (length bits)}"
proof (induction S arbitrary: bits)
  case Nil
  then show ?case by simp
next
  case (Cons idx S)
  from Cons.prems(1) obtain b1 where
    b: "set_bit_at bits idx = Inr b1" "set_bits b1 S = Inr bits'"
    by (auto split: sum.splits)
  from set_bit_at_Inr [OF b(1)] Cons.prems(2) have
    i: "idx < int (length bits)" "length b1 = length bits" by simp_all
  from Cons.IH [OF b(2)] Cons.prems(2) have "set S \<subseteq> {0..<int (length b1)}" by simp
  then show ?case using i Cons.prems(2) by simp
qed

lemma indices_to_bits_spec:
  assumes "indices_to_bits self ks = Inr bits" "\<forall>k \<in> set ks. 0 \<le> k"
  shows "length bits = n_examples self \<and> (\<forall>i < n_examples self. bits ! i = (int i \<in> set ks))"
proof -
  let ?e = "get_empty_domain self"
  have len: "length ?e = n_examples self" by (simp add: get_empty_domain_def)
  have s: "set_bits ?e ks = Inr bits" using assms(1) by (simp add: indices_to_bits_def)
  from set_bits_Inr_range [OF s assms(2)] have "set ks \<subseteq> {0..<int (length ?e)}" .
  from set_bits_in_range [OF this] s have
    "length bits = length ?e" "\<forall>i < length ?e. bits ! i = (?e ! i \<or> int i \<in> set ks)"
    by auto
  then show ?thesis by (simp add: len) (simp add: get_empty_domain_def)
qed

lemma add_pairs_keys:
  "add_pairs self p ps = Inr self' \<Longrightarrow>
   set (keys (dd_val [] (binary_members self') b)) =
     set (keys (dd_val [] (binary_members self) b)) \<union>
     (if b = p then {i. \<exists>s ob. (s, ob) \<in> set ps \<and> map_of (uri_to_idx self) s = Some i} else {}) \<and>
   set (keys (dd_val [] (reverse_binary_members self') b)) =
     set (keys (dd_val [] (reverse_binary_members self) b)) \<union>
     (if b = p then {j. \<exists>s ob. (s, ob) \<in> set ps \<and> map_of (uri_to_idx self) ob = Some j} else {})"
proof (induction self p ps rule: add_pairs.induct)
  case (1 self p)
  then show ?case by simp
next
  case (2 self p s ob rest)
  from "2.prems"(1) obtain el1 el2 where
    e: "map_of (uri_to_idx self) s = Some el1" "map_of (uri_to_idx self) ob = Some el2"
    by (auto split: option.splits)
  let ?s = "self\<lparr>binary_members := dd_link (binary_members self) p el1 el2,
                  reverse_binary_members := dd_link (reverse_binary_members self) p el2 el1\<rparr>"
  have r: "add_pairs ?s p rest = Inr self'" using "2.prems"(1) e by simp
  have u: "uri_to_idx ?s = uri_to_idx self" by simp
  have f: "set (keys (dd_val [] (binary_members ?s) b)) =
     set (keys (dd_val [] (binary_members self) b)) \<union> (if b = p then {el1} else {})"
    by (simp add: dd_link_val link_keys)
  have v: "set (keys (dd_val [] (reverse_binary_members ?s) b)) =
     set (keys (dd_val [] (reverse_binary_members self) b)) \<union> (if b = p then {el2} else {})"
    by (simp add: dd_link_val link_keys)
  have d: "{i. \<exists>s' ob'. (s', ob') \<in> set ((s, ob) # rest) \<and> map_of (uri_to_idx self) s' = Some i} =
     insert el1 {i. \<exists>s' ob'. (s', ob') \<in> set rest \<and> map_of (uri_to_idx self) s' = Some i}"
    using e by auto
  have g: "{j. \<exists>s' ob'. (s', ob') \<in> set ((s, ob) # rest) \<and> map_of (uri_to_idx self) ob' = Some j} =
     insert el2 {j. \<exists>s' ob'. (s', ob') \<in> set rest \<and> map_of (uri_to_idx self) ob' = Some j}"
    using e by auto
  from "2.IH" [OF e r] show ?case
    unfolding u f v d g by auto
qed

lemma domain_ids_same: "same_input s s' \<Longrightarrow> domain_ids s' b = domain_ids s b"
  by (simp add: same_input_def domain_ids_def)

lemma range_ids_same: "same_input s s' \<Longrightarrow> range_ids s' b = range_ids s b"
  by (simp add: same_input_def range_ids_def)

lemma calc_binary_members_keys:
  "calc_binary_members self ps = Inr self' \<Longrightarrow>
   set (keys (dd_val [] (binary_members self') b)) =
     set (keys (dd_val [] (binary_members self) b)) \<union>
     (if b \<in> set ps then domain_ids self b else {}) \<and>
   set (keys (dd_val [] (reverse_binary_members self') b)) =
     set (keys (dd_val [] (reverse_binary_members self) b)) \<union>
     (if b \<in> set ps then range_ids self b else {})"
proof (induction self ps rule: calc_binary_members.induct)
  case (1 self)
  then show ?case by simp
next
  case (2 self pred rest)
  from "2.prems"(1) obtain s1 where
    s1: "add_pairs self pred (subject_objects (g self) pred) = Inr s1"
        "calc_binary_members s1 rest = Inr self'"
    by (auto split: sum.splits)
  from add_pairs_frame [OF s1(1)] have i: "same_input self s1" by simp
  from add_pairs_keys [OF s1(1), of b] have
    a: "set (keys (dd_val [] (binary_members s1) b)) =
          set (keys (dd_val [] (binary_members self) b)) \<union>
          (if b = pred then domain_ids self b else {})"
       "set (keys (dd_val [] (reverse_binary_members s1) b)) =
          set (keys (dd_val [] (reverse_binary_members self) b)) \<union>
          (if b = pred then range_ids self b else {})"
    by (simp_all add: domain_ids_def range_ids_def)
  from "2.IH" [OF s1] show ?case
    unfolding a domain_ids_same [OF i] range_ids_same [OF i] by auto
qed

lemma calc_binary_domains_spec:
  "calc_binary_domains self ps = Inr self' \<Longrightarrow>
   (b \<notin> set ps \<longrightarrow> map_of (binary_domains self') b = map_of (binary_domains self) b) \<and>
   (b \<in> set ps \<longrightarrow>
     (\<exists>dbits rbits. map_of (binary_domains self') b = Some (dbits, rbits) \<and>
        indices_to_bits self (keys (dd_val [] (binary_members self) b)) = Inr dbits \<and>
        indices_to_bits self (keys (dd_val [] (reverse_binary_members self) b)) = Inr rbits))"
proof (induction ps arbitrary: self)
  case Nil
  then show ?case by simp
next
  case (Cons pred rest)
  from Cons.prems obtain dbits rbits s2 where
    d: "indices_to_bits self (keys (dd_val [] (binary_members self) pred)) = Inr dbits"
    and r: "indices_to_bits self (keys (dd_val [] (reverse_binary_members self) pred)) = Inr rbits"
    and f: "same_input self s2" "same_binary self s2"
    and u: "binary_domains s2 = AList.update pred (dbits, rbits) (binary_domains self)"
    and c: "calc_binary_domains s2 rest = Inr self'"
    by (rule calc_binary_domains_step)
  have e: "\<And>xs. indices_to_bits s2 xs = indices_to_bits self xs"
    using f(1) by (simp add: indices_to_bits_def get_empty_domain_def n_examples_def same_input_def)
  have k: "dd_val [] (binary_members s2) b = dd_val [] (binary_members self) b"
    "dd_val [] (reverse_binary_members s2) b = dd_val [] (reverse_binary_members self) b"
    using f(2) by (simp_all add: same_binary_def)
  have m: "map_of (binary_domains s2) b =
           (if b = pred then Some (dbits, rbits) else map_of (binary_domains self) b)"
    by (simp add: u update_conv')
  from Cons.IH [OF c] show ?case
    using d r by (auto simp: e k m)
qed

lemma load_examples_idx:
  "load_examples E self i uris exs = Inr (self', exs') \<Longrightarrow> 0 \<le> i \<Longrightarrow>
   (\<forall>k v. map_of (uri_to_idx self) k = Some v \<longrightarrow> 0 \<le> v) \<Longrightarrow>
   (\<forall>k v. map_of (uri_to_idx self') k = Some v \<longrightarrow> 0 \<le> v)"
proof (induction E self i uris exs rule: load_examples.induct)
  case (1 E self i exs)
  then show ?case by simp
next
  case (2 E self i ex_uri rest exs)
  from "2.prems"(1) obtain annots ws sc cvs lbl where
    a: "read_links E (g self) (objects (g self) ex_uri (HEDWIG E @ ''annotated_with'')) [] []
          = Inr (annots, ws)"
    and b: "read_score E (g self) ex_uri (class_values self) = Inr (sc, cvs)"
    and c: "py_str ex_uri = Inr lbl"
    by (auto split: sum.splits prod.splits)
  let ?s = "self\<lparr>class_values := cvs, uri_to_idx := AList.update ex_uri i (uri_to_idx self)\<rparr>"
  let ?x = "exs @ [\<lparr>example_id = i, label = lbl, score = sc, annotations = annots, weights = ws\<rparr>]"
  have r: "load_examples E ?s (i + 1) rest ?x = Inr (self', exs')"
    using "2.prems"(1) a b c by simp
  have "\<forall>k v. map_of (uri_to_idx ?s) k = Some v \<longrightarrow> 0 \<le> v"
    using "2.prems"(2,3) by (auto simp: update_conv')
  moreover have "0 \<le> i + 1" using "2.prems"(2) by simp
  ultimately show ?case
    using "2.IH" [OF a refl b refl c r] by blast
qed

lemma load_idx:
  assumes "load E triplets namespaces = Inr self" "map_of (uri_to_idx self) k = Some v"
  shows "0 \<le> v"
proof -
  let ?s0 = "new_kb (triplets @ EXAMPLE_SCHEMA E) namespaces"
  let ?s1 = "?s0\<lparr>examples_uris := subjects (g ?s0) RDF_type (HEDWIG E @ ''Example'')\<rparr>"
  from assms(1) obtain s2 exs where
    l: "load_examples E ?s1 0 (examples_uris ?s1) [] = Inr (s2, exs)"
    and u: "uri_to_idx self = uri_to_idx s2"
    by (auto simp: load_def Let_def split: sum.splits prod.splits list.splits)
  have "\<forall>k v. map_of (uri_to_idx ?s1) k = Some v \<longrightarrow> 0 \<le> v"
    by (simp add: new_kb_def)
  from load_examples_idx [OF l _ this] assms(2) u show ?thesis by simp
qed

lemma add_sub_class_input: "same_input self (add_sub_class self sub ob)"
  by (simp add: add_sub_class_def Let_def same_input_def)

lemma add_edges_input: "same_input self (add_edges self es)"
proof (induction self es rule: add_edges.induct)
  case (1 self)
  then show ?case by simp
next
  case (2 self sub ob rest)
  let ?s = "if user_defined self sub \<and> user_defined self ob
            then add_sub_class self sub ob else self"
  have "same_input self ?s"
    using add_sub_class_input [of self sub ob] by simp
  moreover have "same_input ?s (add_edges ?s rest)" by (rule "2.IH")
  ultimately show ?case by (simp add: same_input_def)
qed

lemma add_binary_predicates_input:
  "add_binary_predicates self ps = Inr self' \<Longrightarrow> same_input self self'"
proof (induction self ps rule: add_binary_predicates.induct)
  case (1 self)
  then show ?case by simp
next
  case (2 self pred rest)
  show ?case
  proof (cases "user_defined self pred")
    case True
    with "2.prems" obtain p where
      p: "py_str pred = Inr p"
         "add_binary_predicates (self\<lparr>binary_predicates := set_add p (binary_predicates self)\<rparr>) rest
            = Inr self'"
      by (auto split: sum.splits)
    from "2.IH"(1) [OF True p] show ?thesis by (simp add: same_input_def)
  next
    case False
    with "2.prems" "2.IH"(2) show ?thesis by simp
  qed
qed

lemma build_hierarchy_input:
  assumes "build_hierarchy E leaves self = Inr self'"
  shows "same_input self self'"
proof -
  let ?s1 = "add_edges self (subject_objects (g self) RDFS_subClassOf)"
  let ?s2 = "if leaves then add_edges ?s1 (subject_objects (g ?s1) RDF_type) else ?s1"
  have 1: "same_input self ?s2"
    using add_edges_input [of self "subject_objects (g self) RDFS_subClassOf"]
      add_edges_input [of ?s1 "subject_objects (g ?s1) RDF_type"]
    by (simp add: same_input_def)
  from assms obtain s3 ms where
    b: "add_binary_predicates ?s2
          (set_intersection (set_update [] (subjects (g ?s2) RDFS_domain (HEDWIG E @ ''Example'')))
             (set_update [] (subjects (g ?s2) RDFS_range (HEDWIG E @ ''Example'')))) = Inr s3"
    and r: "self' = s3\<lparr>members := ms\<rparr>"
    by (auto simp: build_hierarchy_def Let_def split: sum.splits)
  from add_binary_predicates_input [OF b] have "same_input ?s2 self'"
    unfolding r by (simp add: same_input_def)
  with 1 show ?thesis by (rule same_input_trans)
qed

lemma add_roots_input: "same_input self (add_roots self rs)"
proof (induction self rs rule: add_roots.induct)
  case (1 self)
  then show ?case by simp
next
  case (2 self r rest)
  then show ?case
    using add_sub_class_input [of self r "dummy_root self"]
    by (simp add: same_input_def)
qed

lemma init_closure_input: "same_input self (init_closure self ps)"
proof (induction self ps rule: init_closure.induct)
  case (1 self)
  then show ?case by simp
next
  case (2 self pred rest)
  then show ?case by (simp add: same_input_def)
qed

lemma add_dummy_root_input: "same_input self (add_dummy_root self)"
proof -
  obtain roots sco where f: "find_roots (sub_class_of self) (keys (super_class_of self)) = (roots, sco)"
    by (cases "find_roots (sub_class_of self) (keys (super_class_of self))")
  let ?s1 = "self\<lparr>sub_class_of := sco, dummy_root := ''root''\<rparr>"
  let ?s2 = "?s1\<lparr>predicates := set_add (dummy_root ?s1) (predicates ?s1)\<rparr>"
  let ?s3 = "add_roots ?s2 roots"
  have "same_input self ?s2" by (simp add: same_input_def)
  moreover have "same_input ?s2 ?s3" by (rule add_roots_input)
  moreover have "same_input ?s3 (?s3\<lparr>sub_class_of_closure := []\<rparr>)" by (simp add: same_input_def)
  moreover have "same_input (?s3\<lparr>sub_class_of_closure := []\<rparr>)
     (init_closure (?s3\<lparr>sub_class_of_closure := []\<rparr>) (keys (super_class_of ?s3)))"
    by (rule init_closure_input)
  moreover have "add_dummy_root self =
     init_closure (?s3\<lparr>sub_class_of_closure := []\<rparr>) (keys (super_class_of ?s3))"
    unfolding add_dummy_root_def f by (simp add: Let_def)
  ultimately show ?thesis by (simp add: same_input_def)
qed

lemma init_input:
  assumes "init E triplets namespaces leaves = Inr self"
  obtains self1 self3 self4 where
    "load E triplets namespaces = Inr self1" "same_input self1 self3"
    "index_binary self3 = Inr self4" "statistics E self4 = Inr self"
proof -
  from assms obtain self1 self2 self3 self4 where
    a: "load E triplets namespaces = Inr self1"
    and b: "build_hierarchy E leaves self1 = Inr self2"
    and c: "run_closure E (add_dummy_root self2) = Inr self3"
    and d: "index_binary self3 = Inr self4" "statistics E self4 = Inr self"
    by (rule init_Inr)
  from build_hierarchy_input [OF b] add_dummy_root_input [of self2] run_closure_post [OF c]
  have i: "same_input self1 self3" by (simp add: same_input_def)
  show ?thesis by (rule that [OF a i d])
qed

lemma domain_ids_nonneg:
  "\<forall>k v. map_of (uri_to_idx self) k = Some v \<longrightarrow> 0 \<le> v \<Longrightarrow> i \<in> domain_ids self b \<Longrightarrow> 0 \<le> i"
  by (auto simp: domain_ids_def)

lemma range_ids_nonneg:
  "\<forall>k v. map_of (uri_to_idx self) k = Some v \<longrightarrow> 0 \<le> v \<Longrightarrow> j \<in> range_ids self b \<Longrightarrow> 0 \<le> j"
  by (auto simp: range_ids_def)

lemma index_binary_domains:
  assumes ib: "index_binary self = Inr self'"
    and b: "b \<in> set (binary_predicates self)"
    and nn: "\<forall>k v. map_of (uri_to_idx self) k = Some v \<longrightarrow> 0 \<le> v"
  shows "\<exists>dbits rbits. map_of (binary_domains self') b = Some (dbits, rbits) \<and>
     length dbits = n_examples self \<and> length rbits = n_examples self \<and>
     (\<forall>i < n_examples self. dbits ! i = (int i \<in> domain_ids self b)) \<and>
     (\<forall>j < n_examples self. rbits ! j = (int j \<in> range_ids self b)) \<and>
     set (keys (dd_val [] (binary_members self') b)) = domain_ids self b \<and>
     set (keys (dd_val [] (reverse_binary_members self') b)) = range_ids self b"
proof -
  let ?s0 = "self\<lparr>binary_members := [], reverse_binary_members := []\<rparr>"
  from ib obtain s1 s2 s3 where
    s1: "calc_binary_members ?s0 (binary_predicates self) = Inr s1"
    and s2: "calc_binary_domains (s1\<lparr>binary_domains := []\<rparr>) (binary_predicates s1) = Inr s2"
    and s3: "calc_bit_members (s2\<lparr>bit_members := []\<rparr>) (keys (members s2)) = Inr s3"
    and s4: "calc_bit_binary_members
               (s3\<lparr>bit_binary_members := [], reverse_bit_binary_members := []\<rparr>)
               (keys (binary_members s3)) = Inr self'"
    by (rule index_binary_steps)
  let ?s1 = "s1\<lparr>binary_domains := []\<rparr>"
  from calc_binary_members_frame [OF s1] have
    f1: "g s1 = g self" "uri_to_idx s1 = uri_to_idx self" "examples s1 = examples self"
        "binary_predicates s1 = binary_predicates self"
    by (simp_all add: same_input_def same_hierarchy_def)
  have d0: "domain_ids ?s0 b = domain_ids self b" "range_ids ?s0 b = range_ids self b"
    by (simp_all add: domain_ids_def range_ids_def)
  have e0: "dd_val [] (binary_members ?s0) b = []" "dd_val [] (reverse_binary_members ?s0) b = []"
    by (simp_all add: dd_val_def)
  from calc_binary_members_keys [OF s1, of b] b have
    k1: "set (keys (dd_val [] (binary_members s1) b)) = domain_ids self b"
        "set (keys (dd_val [] (reverse_binary_members s1) b)) = range_ids self b"
    unfolding d0 e0 by (simp_all add: keys_def)
  from calc_binary_domains_spec [OF s2, of b] b f1(4) obtain dbits rbits where
    m2: "map_of (binary_domains s2) b = Some (dbits, rbits)"
    and db: "indices_to_bits ?s1 (keys (dd_val [] (binary_members ?s1) b)) = Inr dbits"
    and rb: "indices_to_bits ?s1 (keys (dd_val [] (reverse_binary_members ?s1) b)) = Inr rbits"
    by auto
  have n1: "n_examples ?s1 = n_examples self" by (simp add: n_examples_def f1)
  have "\<forall>k \<in> set (keys (dd_val [] (binary_members ?s1) b)). 0 \<le> k"
    using k1(1) domain_ids_nonneg [OF nn] by auto
  from indices_to_bits_spec [OF db this] have
    dspec: "length dbits = n_examples self"
           "\<forall>i < n_examples self. dbits ! i = (int i \<in> domain_ids self b)"
    using k1(1) by (simp_all add: n1)
  have "\<forall>k \<in> set (keys (dd_val [] (reverse_binary_members ?s1) b)). 0 \<le> k"
    using k1(2) range_ids_nonneg [OF nn] by auto
  from indices_to_bits_spec [OF rb this] have
    rspec: "length rbits = n_examples self"
           "\<forall>j < n_examples self. rbits ! j = (int j \<in> range_ids self b)"
    using k1(2) by (simp_all add: n1)
  from calc_binary_domains_frame [OF s2] have b2: "same_binary s1 s2"
    by (simp add: same_binary_def)
  from calc_bit_members_frame [OF s3] have
    b3: "same_binary s2 s3" "binary_domains s3 = binary_domains s2"
    by (simp_all add: same_binary_def)
  from calc_bit_binary_members_frame [OF s4] have
    b4: "same_binary s3 self'" "binary_domains self' = binary_domains s3"
    by (simp_all add: same_binary_def)
  have sb: "same_binary s1 self'"
    using b2 b3(1) b4(1) by (simp add: same_binary_def)
  have k4: "set (keys (dd_val [] (binary_members self') b)) = domain_ids self b"
    "set (keys (dd_val [] (reverse_binary_members self') b)) = range_ids self b"
    using sb k1 by (simp_all add: same_binary_def)
  have "map_of (binary_domains self') b = Some (dbits, rbits)"
    using m2 b3(2) b4(2) by simp
  then show ?thesis using dspec rspec k4 by blast
qed

text \<open>
  C6. For every binary predicate of a constructed object, \<open>get_domains\<close> returns two
  bitsets of the length of the population: bit \<open>i\<close> of the first is set exactly when the
  example \<open>i\<close> is the subject of some pair of the predicate in the graph, bit \<open>j\<close> of the
  second exactly when the example \<open>j\<close> is the object of some pair; these ids are the keys
  of the forward and of the reverse dictionary.
\<close>

theorem binary_domains_spec:
  "init E triplets namespaces instances_as_leaves = Inr self \<Longrightarrow>
   b \<in> set (binary_predicates self) \<Longrightarrow>
   \<exists>dbits rbits. get_domains self b = Inr (dbits, rbits) \<and>
     length dbits = n_examples self \<and> length rbits = n_examples self \<and>
     (\<forall>i < n_examples self. dbits ! i = (int i \<in> domain_ids self b)) \<and>
     (\<forall>j < n_examples self. rbits ! j = (int j \<in> range_ids self b)) \<and>
     set (keys (dd_val [] (binary_members self) b)) = domain_ids self b \<and>
     set (keys (dd_val [] (reverse_binary_members self) b)) = range_ids self b"
proof -
  assume i: "init E triplets namespaces instances_as_leaves = Inr self"
    and b: "b \<in> set (binary_predicates self)"
  from i obtain self1 self3 self4 where
    l: "load E triplets namespaces = Inr self1" and si: "same_input self1 self3"
    and ib: "index_binary self3 = Inr self4" and st: "statistics E self4 = Inr self"
    by (rule init_input)
  from index_binary_frame [OF ib] statistics_frame [OF st] have
    f: "same_input self3 self" "same_hierarchy self3 self"
       "binary_members self = binary_members self4"
       "reverse_binary_members self = reverse_binary_members self4"
       "binary_domains self = binary_domains self4"
    by (simp_all add: same_input_def same_hierarchy_def)
  have b3: "b \<in> set (binary_predicates self3)"
    using b f(2) by (simp add: same_hierarchy_def)
  have nn: "\<forall>k v. map_of (uri_to_idx self3) k = Some v \<longrightarrow> 0 \<le> v"
    using load_idx [OF l] si by (simp add: same_input_def)
  have n: "n_examples self3 = n_examples self"
    using f(1) by (simp add: n_examples_def same_input_def)
  from index_binary_domains [OF ib b3 nn] show ?thesis
    unfolding get_domains_def f(3,4,5) n domain_ids_same [OF f(1), symmetric]
      range_ids_same [OF f(1), symmetric]
    by auto
qed

theorem binary_domains_spec_witness:
  "case init env0 graph_linked [] True of
     Inl e \<Rightarrow> False
   | Inr self \<Rightarrow>
       binary_predicates self = [''linkedTo''] \<and> n_examples self = 3 \<and>
       binary_members self = [(''linkedTo'', [(0, [1]), (1, [2])])] \<and>
       reverse_binary_members self = [(''linkedTo'', [(1, [0]), (2, [1])])] \<and>
       get_domains self ''linkedTo'' = Inr ([True, True, False], [False, True, True]) \<and>
       domain_ids self ''linkedTo'' = {0, 1} \<and> range_ids self ''linkedTo'' = {1, 2}"
proof -
  have ev: "case init env0 graph_linked [] True of
     Inl e \<Rightarrow> False
   | Inr self \<Rightarrow>
       binary_predicates self = [''linkedTo''] \<and> n_examples self = 3 \<and>
       binary_members self = [(''linkedTo'', [(0, [1]), (1, [2])])] \<and>
       reverse_binary_members self = [(''linkedTo'', [(1, [0]), (2, [1])])] \<and>
       get_domains self ''linkedTo'' = Inr ([True, True, False], [False, True, True])"
    by code_simp
  then obtain self where s: "init env0 graph_linked [] True = Inr self"
    "binary_predicates self = [''linkedTo'']" "n_examples self = 3"
    "binary_members self = [(''linkedTo'', [(0, [1]), (1, [2])])]"
    "reverse_binary_members self = [(''linkedTo'', [(1, [0]), (2, [1])])]"
    "get_domains self ''linkedTo'' = Inr ([True, True, False], [False, True, True])"
    by (auto split: sum.splits)
  have "''linkedTo'' \<in> set (binary_predicates self)" using s(2) by simp
  from binary_domains_spec [OF s(1) this] have
    "set (keys (dd_val [] (binary_members self) ''linkedTo'')) = domain_ids self ''linkedTo''"
    "set (keys (dd_val [] (reverse_binary_members self) ''linkedTo'')) = range_ids self ''linkedTo''"
    by blast+
  then have "domain_ids self ''linkedTo'' = {0, 1}" "range_ids self ''linkedTo'' = {1, 2}"
    using s(4,5) by (auto simp: dd_val_def keys_def)
  then show ?thesis using s by simp
qed

subsection \<open>Members of the leaves\<close>

lemma dd_val_dd_add:
  "dd_val [] (dd_add d k v) k' = (if k' = k then set_add v (dd_val [] d k) else dd_val [] d k')"
  by (simp add: dd_add_def dd_val_update)

lemma add_annotations_leaves:
  "add_annotations gr True ms i annots = Inr ms' \<Longrightarrow>
   set (dd_val [] ms' c) = set (dd_val [] ms c) \<union> (if c \<in> set annots then {i} else {})"
proof (induction annots arbitrary: ms)
  case Nil
  then show ?case by simp
next
  case (Cons inst rest)
  from Cons.prems have "add_annotations gr True (dd_add ms inst i) i rest = Inr ms'" by simp
  from Cons.IH [OF this] show ?case by (auto simp: dd_val_dd_add)
qed

lemma calc_members_leaves:
  "calc_members gr True ms exs = Inr ms' \<Longrightarrow>
   set (dd_val [] ms' c) =
     set (dd_val [] ms c) \<union> {example_id ex | ex. ex \<in> set exs \<and> c \<in> set (annotations ex)}"
proof (induction exs arbitrary: ms)
  case Nil
  then show ?case by simp
next
  case (Cons ex rest)
  from Cons.prems obtain m1 where
    m: "add_annotations gr True ms (example_id ex) (annotations ex) = Inr m1"
       "calc_members gr True m1 rest = Inr ms'"
    by (auto split: sum.splits)
  from Cons.IH [OF m(2)] add_annotations_leaves [OF m(1), of c] show ?case by auto
qed

lemma load_examples_ids:
  "load_examples E self i uris exs = Inr (self', exs') \<Longrightarrow> i = int (length exs) \<Longrightarrow>
   (\<forall>k < length exs. example_id (exs ! k) = int k) \<Longrightarrow>
   (\<forall>k < length exs'. example_id (exs' ! k) = int k)"
proof (induction E self i uris exs rule: load_examples.induct)
  case (1 E self i exs)
  then show ?case by simp
next
  case (2 E self i ex_uri rest exs)
  from "2.prems"(1) obtain annots ws sc cvs lbl where
    a: "read_links E (g self) (objects (g self) ex_uri (HEDWIG E @ ''annotated_with'')) [] []
          = Inr (annots, ws)"
    and b: "read_score E (g self) ex_uri (class_values self) = Inr (sc, cvs)"
    and c: "py_str ex_uri = Inr lbl"
    by (auto split: sum.splits prod.splits)
  let ?s = "self\<lparr>class_values := cvs, uri_to_idx := AList.update ex_uri i (uri_to_idx self)\<rparr>"
  let ?x = "exs @ [\<lparr>example_id = i, label = lbl, score = sc, annotations = annots, weights = ws\<rparr>]"
  have r: "load_examples E ?s (i + 1) rest ?x = Inr (self', exs')"
    using "2.prems"(1) a b c by simp
  have l: "i + 1 = int (length ?x)" using "2.prems"(2) by simp
  have "\<forall>k < length ?x. example_id (?x ! k) = int k"
    using "2.prems"(2,3) by (auto simp: nth_append less_Suc_eq)
  from "2.IH" [OF a refl b refl c r l this] show ?case .
qed

lemma load_ids:
  assumes "load E triplets namespaces = Inr self" "k < length (examples self)"
  shows "example_id (examples self ! k) = int k"
proof -
  let ?s0 = "new_kb (triplets @ EXAMPLE_SCHEMA E) namespaces"
  let ?s1 = "?s0\<lparr>examples_uris := subjects (g ?s0) RDF_type (HEDWIG E @ ''Example'')\<rparr>"
  from assms(1) obtain s2 exs where
    l: "load_examples E ?s1 0 (examples_uris ?s1) [] = Inr (s2, exs)"
    and u: "examples self = exs"
    by (auto simp: load_def Let_def split: sum.splits prod.splits list.splits)
  from load_examples_ids [OF l] assms(2) u show ?thesis by simp
qed

lemma build_hierarchy_members:
  assumes "build_hierarchy E True self = Inr self'"
  shows "set (dd_val [] (members self') c) =
    {example_id ex | ex. ex \<in> set (examples self') \<and> c \<in> set (annotations ex)}"
proof -
  let ?s1 = "add_edges self (subject_objects (g self) RDFS_subClassOf)"
  let ?s2 = "add_edges ?s1 (subject_objects (g ?s1) RDF_type)"
  from assms obtain s3 ms where
    m: "calc_members (g s3) True [] (examples s3) = Inr ms"
    and r: "self' = s3\<lparr>members := ms\<rparr>"
    by (auto simp: build_hierarchy_def Let_def split: sum.splits)
  from calc_members_leaves [OF m, of c] show ?thesis
    unfolding r by (simp add: dd_val_def)
qed

lemma init_closure_members: "members (init_closure self ps) = members self"
  by (induction self ps rule: init_closure.induct) simp_all

lemma add_roots_members: "members (add_roots self rs) = members self"
  by (induction self rs rule: add_roots.induct) (simp_all add: add_sub_class_def Let_def)

lemma add_dummy_root_members: "members (add_dummy_root self) = members self"
  by (simp add: add_dummy_root_def Let_def init_closure_members add_roots_members
      split: prod.splits)

lemma run_closure_leaves:
  assumes "run_closure E self = Inr self'" "dd_val [] (super_class_of self') c = []"
  shows "dd_val [] (members self') c = dd_val [] (members self) c"
proof -
  let ?s0 = "self\<lparr>levels := []\<rparr>"
  from assms(1) obtain mems where
    c: "closure (recursion_limit E) (dummy_root self) 0 ?s0 = Inr (mems, self')"
    by (auto simp: run_closure_def split: sum.splits)
  from closure_post [OF c] have "same_leaves ?s0 self'" by simp
  then show ?thesis using assms(2) by (simp add: same_leaves_def)
qed

lemma init_leaf_members:
  assumes i: "init E triplets namespaces True = Inr self"
    and c: "dd_val [] (super_class_of self) c = []"
  shows "set (dd_val [] (members self) c) =
    {example_id ex | ex. ex \<in> set (examples self) \<and> c \<in> set (annotations ex)}"
proof -
  from i obtain self1 self2 self3 self4 where
    b: "build_hierarchy E True self1 = Inr self2"
    and rc: "run_closure E (add_dummy_root self2) = Inr self3"
    and ib: "index_binary self3 = Inr self4" and st: "statistics E self4 = Inr self"
    by (rule init_Inr)
  from index_binary_frame [OF ib] statistics_frame [OF st] have
    f: "same_input self3 self" "same_hierarchy self3 self"
    by (simp_all add: same_input_def same_hierarchy_def)
  have c3: "dd_val [] (super_class_of self3) c = []"
    using c f(2) by (simp add: same_hierarchy_def)
  have "dd_val [] (members self) c = dd_val [] (members self3) c"
    using f(2) by (simp add: same_hierarchy_def)
  also have "\<dots> = dd_val [] (members self2) c"
    using run_closure_leaves [OF rc c3] by (simp add: add_dummy_root_members)
  finally have m: "dd_val [] (members self) c = dd_val [] (members self2) c" .
  have "examples self = examples self2"
    using add_dummy_root_input [of self2] run_closure_post [OF rc] f(1)
    by (simp add: same_input_def)
  then show ?thesis
    unfolding m using build_hierarchy_members [OF b, of c] by simp
qed

lemma init_ids:
  assumes i: "init E triplets namespaces leaves = Inr self" and k: "k < n_examples self"
  shows "example_id (examples self ! k) = int k"
proof -
  from i obtain self1 self3 self4 where
    l: "load E triplets namespaces = Inr self1" and si: "same_input self1 self3"
    and ib: "index_binary self3 = Inr self4" and st: "statistics E self4 = Inr self"
    by (rule init_input)
  from index_binary_frame [OF ib] statistics_frame [OF st] si have
    "examples self = examples self1"
    by (simp add: same_input_def)
  then show ?thesis using load_ids [OF l, of k] k by (simp add: n_examples_def)
qed

lemma example_by_id:
  assumes "\<forall>k < length exs. example_id (exs ! k) = int k" "i < length exs"
  shows "(\<exists>ex. ex \<in> set exs \<and> example_id ex = int i \<and> P ex) = P (exs ! i)"
proof
  assume "\<exists>ex. ex \<in> set exs \<and> example_id ex = int i \<and> P ex"
  then obtain ex where e: "ex \<in> set exs" "example_id ex = int i" "P ex" by blast
  from e(1) obtain k where k: "k < length exs" "exs ! k = ex" by (auto simp: in_set_conv_nth)
  with assms(1) e(2) have "k = i" by auto
  with k e(3) show "P (exs ! i)" by simp
next
  assume "P (exs ! i)"
  then show "\<exists>ex. ex \<in> set exs \<and> example_id ex = int i \<and> P ex"
    using assms by (intro exI [of _ "exs ! i"]) simp
qed

subsection \<open>The members of the root and the annotations\<close>

text \<open>
  C2 as the code has it. The members of the dummy root are exactly the members of the
  predicates without subclasses that are reached from the root through subclass edges.
  When instances are leaves, the example \<open>i\<close> is a member of the root if and only if one of
  its annotations is such a leaf; an example without such an annotation is no member.
\<close>

theorem root_members_are_leaf_members:
  "init E triplets namespaces instances_as_leaves = Inr self \<Longrightarrow>
   dummy_root self = ''root'' \<and>
   set (dd_val [] (members self) ''root'') =
     \<Union> {set (dd_val [] (members self) c) | c.
          (''root'', c) \<in> (subclass_rel self)\<^sup>* \<and> dd_val [] (super_class_of self) c = []} \<and>
   (instances_as_leaves \<longrightarrow>
     (\<forall>i < n_examples self.
        (int i \<in> set (dd_val [] (members self) ''root'')) =
        (\<exists>c \<in> set (annotations (examples self ! i)).
           (''root'', c) \<in> (subclass_rel self)\<^sup>* \<and> dd_val [] (super_class_of self) c = [])))"
proof -
  assume i: "init E triplets namespaces instances_as_leaves = Inr self"
  then obtain self2 self3 self4 where
    rc: "run_closure E (add_dummy_root self2) = Inr self3"
    and ib: "index_binary self3 = Inr self4" and st: "statistics E self4 = Inr self"
    by (rule init_Inr)
  from run_closure_post [OF rc] have
    r0: "dummy_root self3 = dummy_root (add_dummy_root self2)"
    and r2: "set (dd_val [] (members self3) (dummy_root self3)) = leaf_members self3 (dummy_root self3)"
    by blast+
  from r0 have r1: "dummy_root self3 = ''root''"
    by (simp add: add_dummy_root_root)
  note r = r1 r2 [unfolded r1]
  from index_binary_frame [OF ib] statistics_frame [OF st] have h: "same_hierarchy self3 self"
    by (blast intro: same_hierarchy_trans)
  then have d: "dummy_root self = ''root''" and m: "members self = members self3"
    using r(1) by (simp_all add: same_hierarchy_def)
  have "leaf_members self ''root'' = leaf_members self3 ''root''"
    by (rule leaf_members_hierarchy [OF h])
  then have u: "set (dd_val [] (members self) ''root'') = leaf_members self ''root''"
    using r m by simp
  have a: "(int k \<in> set (dd_val [] (members self) ''root'')) =
        (\<exists>c \<in> set (annotations (examples self ! k)).
           (''root'', c) \<in> (subclass_rel self)\<^sup>* \<and> dd_val [] (super_class_of self) c = [])"
    if l: "instances_as_leaves" and k: "k < n_examples self" for k
  proof -
    have ids: "\<forall>j < length (examples self). example_id (examples self ! j) = int j"
      using init_ids [OF i] by (simp add: n_examples_def)
    have kl: "k < length (examples self)" using k by (simp add: n_examples_def)
    have leaf: "(int k \<in> set (dd_val [] (members self) c)) = (c \<in> set (annotations (examples self ! k)))"
      if "dd_val [] (super_class_of self) c = []" for c
    proof -
      from i l have "init E triplets namespaces True = Inr self" by simp
      from init_leaf_members [OF this that] have
        "(int k \<in> set (dd_val [] (members self) c)) =
         (\<exists>ex. ex \<in> set (examples self) \<and> example_id ex = int k \<and> c \<in> set (annotations ex))"
        by auto
      then show ?thesis
        using example_by_id [OF ids kl, of "\<lambda>ex. c \<in> set (annotations ex)"] by simp
    qed
    have "(int k \<in> leaf_members self ''root'') =
      (\<exists>c. (''root'', c) \<in> (subclass_rel self)\<^sup>* \<and> dd_val [] (super_class_of self) c = [] \<and>
           int k \<in> set (dd_val [] (members self) c))"
      by (auto simp: leaf_members_def)
    also have "\<dots> = (\<exists>c. (''root'', c) \<in> (subclass_rel self)\<^sup>* \<and>
           dd_val [] (super_class_of self) c = [] \<and> c \<in> set (annotations (examples self ! k)))"
      using leaf by blast
    finally show ?thesis unfolding u by blast
  qed
  from d u a show ?thesis by (simp add: leaf_members_def)
qed

theorem root_members_counterexample:
  "case init env0 graph_annotated [] True of
     Inl e \<Rightarrow> False
   | Inr self \<Rightarrow>
       n_examples self = 2 \<and> dd_val [] (members self) (dummy_root self) = [0] \<and>
       1 \<notin> set (dd_val [] (members self) (dummy_root self))"
  by code_simp

theorem root_members_are_leaf_members_witness:
  "case init env0 graph_annotated [] True of
     Inl e \<Rightarrow> False
   | Inr self \<Rightarrow>
       n_examples self = 2 \<and>
       dd_val [] (members self) ''root'' = [0] \<and>
       dd_val [] (members self) ''A'' = [0] \<and>
       annotations (examples self ! 0) = [''A''] \<and>
       annotations (examples self ! 1) = [] \<and>
       (''root'', ''A'') \<in> (subclass_rel self)\<^sup>* \<and>
       \<Union> {set (dd_val [] (members self) c) | c.
          (''root'', c) \<in> (subclass_rel self)\<^sup>* \<and> dd_val [] (super_class_of self) c = []} = {0}"
proof -
  have ev: "case init env0 graph_annotated [] True of
     Inl e \<Rightarrow> False
   | Inr self \<Rightarrow>
       n_examples self = 2 \<and>
       dd_val [] (members self) ''root'' = [0] \<and>
       dd_val [] (members self) ''A'' = [0] \<and>
       annotations (examples self ! 0) = [''A''] \<and>
       annotations (examples self ! 1) = []"
    by code_simp
  then obtain self where s: "init env0 graph_annotated [] True = Inr self"
    "n_examples self = 2"
    "dd_val [] (members self) ''root'' = [0]" "dd_val [] (members self) ''A'' = [0]"
    "annotations (examples self ! 0) = [''A'']" "annotations (examples self ! 1) = []"
    by (auto split: sum.splits)
  note th = root_members_are_leaf_members [OF s(1)]
  have t: "set (dd_val [] (members self) ''root'') =
     \<Union> {set (dd_val [] (members self) c) | c.
          (''root'', c) \<in> (subclass_rel self)\<^sup>* \<and> dd_val [] (super_class_of self) c = []}"
    by (rule conjunct1 [OF conjunct2 [OF th]])
  have a: "\<forall>i < n_examples self.
        (int i \<in> set (dd_val [] (members self) ''root'')) =
        (\<exists>c \<in> set (annotations (examples self ! i)).
           (''root'', c) \<in> (subclass_rel self)\<^sup>* \<and> dd_val [] (super_class_of self) c = [])"
    using conjunct2 [OF conjunct2 [OF th]] by simp
  have "(int 0 \<in> set (dd_val [] (members self) ''root'')) =
        (\<exists>c \<in> set (annotations (examples self ! 0)).
           (''root'', c) \<in> (subclass_rel self)\<^sup>* \<and> dd_val [] (super_class_of self) c = [])"
    by (rule a [rule_format]) (simp add: s(2))
  then have "(''root'', ''A'') \<in> (subclass_rel self)\<^sup>*"
    using s(3,5) by simp
  then show ?thesis using s t by simp
qed

end
